theory Spec2Isabelle
  imports Main "HOL-Library.Word" "HOL-Library.Stream" "HOL-Library.Monad_Syntax"
begin

unbundle bit_operations_syntax

section \<open>The io_uring receive shim of net/uring/io_uring.c\<close>

text \<open>
  The file holds five C functions over liburing: \<^verbatim>\<open>receive_into\<close>, \<^verbatim>\<open>ip\<close>,
  \<^verbatim>\<open>port\<close>, \<^verbatim>\<open>submit_recvmsg_request\<close> and \<^verbatim>\<open>submit_nop_request\<close>. They are
  embedded below as HOL functions over an explicit ring state and an explicit memory.
  A C \<^verbatim>\<open>int\<close> is a \<open>32 word\<close> compared with the signed orders \<open><s\<close> and \<open>\<le>s\<close>;
  a pointer is a 64-bit address with \<open>NULL = 0\<close>; the memory maps addresses to bytes, and
  a load or store through the null pointer, or one that touches an address with no byte,
  is a \<open>fault\<close>. The diagnostics
  written to \<^verbatim>\<open>stderr\<close> (\<^verbatim>\<open>perror\<close>, \<^verbatim>\<open>fprintf\<close>) are left out: no property below is
  about them.
\<close>

subsection \<open>Memory\<close>

type_synonym ptr = "64 word"

definition NULL :: ptr where
  "NULL = 0"

datatype fault = NullDereference | InvalidPointer

definition segfault :: "ptr \<Rightarrow> fault" where
  "segfault p = (if p = NULL then NullDereference else InvalidPointer)"

text \<open>The memory is one map from addresses to bytes: objects are not kept apart by
  their type, and a store through any pointer changes whatever lies at its address.
  \<open>addrs p n\<close> are the \<open>n\<close> addresses from \<open>p\<close> on; \<open>mapped\<close> says that each of them holds
  a byte, \<open>separate\<close> that two ranges of addresses share none.\<close>

type_synonym memory = "ptr \<rightharpoonup> 8 word"

fun addrs :: "ptr \<Rightarrow> nat \<Rightarrow> ptr list" where
  "addrs p 0 = []"
| "addrs p (Suc n) = p # addrs (p + 1) n"

definition mapped :: "memory \<Rightarrow> ptr \<Rightarrow> nat \<Rightarrow> bool" where
  "mapped mem p n = list_all (\<lambda>a. mem a \<noteq> None) (addrs p n)"

definition separate :: "ptr \<Rightarrow> nat \<Rightarrow> ptr \<Rightarrow> nat \<Rightarrow> bool" where
  "separate p n q m = list_all (\<lambda>a. a \<notin> set (addrs q m)) (addrs p n)"

text \<open>A load of \<open>n\<close> bytes and a store of a list of bytes, byte by byte from the lowest
  address on; either faults (\<open>None\<close>) at the first address that holds no byte.\<close>

fun load_bytes :: "memory \<Rightarrow> ptr \<Rightarrow> nat \<Rightarrow> 8 word list option" where
  "load_bytes mem p 0 = Some []"
| "load_bytes mem p (Suc n) =
     (case mem p of None \<Rightarrow> None | Some b \<Rightarrow> map_option ((#) b) (load_bytes mem (p + 1) n))"

fun store_bytes :: "memory \<Rightarrow> ptr \<Rightarrow> 8 word list \<Rightarrow> memory option" where
  "store_bytes mem p [] = Some mem"
| "store_bytes mem p (b # bs) =
     (case mem p of None \<Rightarrow> None | Some _ \<Rightarrow> store_bytes (mem(p \<mapsto> b)) (p + 1) bs)"

text \<open>The memory with the bytes \<open>bs\<close> at \<open>p\<close>: what a store that does not fault leaves.\<close>

definition place :: "ptr \<Rightarrow> 8 word list \<Rightarrow> memory \<Rightarrow> memory" where
  "place p bs mem = mem(addrs p (length bs) [\<mapsto>] bs)"

text \<open>The byte order of the host is a parameter of the platform. A value of \<open>n\<close> bytes
  lies in memory least significant byte first on a little-endian host, most significant
  byte first on a big-endian one.\<close>

datatype endianness = LittleEndian | BigEndian

fun le_bytes :: "nat \<Rightarrow> 'a::len word \<Rightarrow> 8 word list" where
  "le_bytes 0 w = []"
| "le_bytes (Suc n) w = ucast w # le_bytes n (drop_bit 8 w)"

fun le_word :: "8 word list \<Rightarrow> 'a::len word" where
  "le_word [] = 0"
| "le_word (b # bs) = ucast b OR push_bit 8 (le_word bs)"

definition encode :: "endianness \<Rightarrow> nat \<Rightarrow> 'a::len word \<Rightarrow> 8 word list" where
  "encode host n w = (case host of LittleEndian \<Rightarrow> le_bytes n w | BigEndian \<Rightarrow> rev (le_bytes n w))"

definition decode :: "endianness \<Rightarrow> 8 word list \<Rightarrow> 'a::len word" where
  "decode host bs = (case host of LittleEndian \<Rightarrow> le_word bs | BigEndian \<Rightarrow> le_word (rev bs))"

text \<open>A member of a structure is the \<open>n\<close> bytes at an offset from the structure's address.
  \<open>load_field\<close> reads a member through a pointer to the structure, \<open>store_field\<close> assigns
  to it, and \<open>stored\<close> is the memory an assignment leaves when it does not fault. An
  access through the null pointer faults whatever the memory holds; an access through
  another pointer faults when one of the member's bytes is not mapped.\<close>

definition field :: "ptr \<Rightarrow> nat \<Rightarrow> ptr" where
  "field obj off = obj + of_nat off"

definition load_field :: "endianness \<Rightarrow> memory \<Rightarrow> ptr \<Rightarrow> nat \<Rightarrow> nat \<Rightarrow> 'a::len word option" where
  "load_field host mem obj off n =
     (if obj = NULL then None else map_option (decode host) (load_bytes mem (field obj off) n))"

definition store_field ::
  "endianness \<Rightarrow> ptr \<Rightarrow> nat \<Rightarrow> nat \<Rightarrow> 'a::len word \<Rightarrow> memory \<Rightarrow> fault + memory" where
  "store_field host obj off n w mem =
     (case (if obj = NULL then None else store_bytes mem (field obj off) (encode host n w)) of
        None \<Rightarrow> Inl (segfault obj)
      | Some mem' \<Rightarrow> Inr mem')"

definition stored :: "endianness \<Rightarrow> ptr \<Rightarrow> nat \<Rightarrow> nat \<Rightarrow> 'a::len word \<Rightarrow> memory \<Rightarrow> memory" where
  "stored host obj off n w mem = place (field obj off) (encode host n w) mem"

subsection \<open>Data\<close>

text \<open>\<^verbatim>\<open>struct iovec\<close>, \<^verbatim>\<open>struct msghdr\<close> and \<^verbatim>\<open>struct sockaddr_in\<close> (with
  \<^verbatim>\<open>sin_addr.s_addr\<close> flattened into \<open>s_addr\<close>), as Linux declares them on a 64-bit
  target. A record is the value of a structure; \<open>iovec_at\<close>, \<open>msghdr_at\<close> and
  \<open>sockaddr_at\<close> read one from the memory, member by member, at the offsets and sizes
  of that target:
  \<^item> \<^verbatim>\<open>struct iovec\<close>, 16 bytes: \<open>iov_base\<close> at 0 and \<open>iov_len\<close> at 8, of 8 bytes each;
  \<^item> \<^verbatim>\<open>struct msghdr\<close>, 56 bytes: \<open>msg_name\<close> at 0 (8 bytes), \<open>msg_namelen\<close> at 8 (4),
    \<open>msg_iov\<close> at 16 (8), \<open>msg_iovlen\<close> at 24 (8), \<open>msg_control\<close> at 32 (8),
    \<open>msg_controllen\<close> at 40 (8), \<open>msg_flags\<close> at 48 (4);
  \<^item> \<^verbatim>\<open>struct sockaddr_in\<close>, 16 bytes: \<open>sin_family\<close> at 0 (2 bytes), \<open>sin_port\<close> at 2 (2),
    \<open>s_addr\<close> at 4 (4).\<close>

record iovec =
  iov_base :: ptr
  iov_len :: "64 word"

record msghdr =
  msg_name :: ptr
  msg_namelen :: "32 word"
  msg_iov :: ptr
  msg_iovlen :: "64 word"
  msg_control :: ptr
  msg_controllen :: "64 word"
  msg_flags :: "32 word"

record sockaddr_in =
  sin_family :: "16 word"
  sin_port :: "16 word"
  s_addr :: "32 word"

definition iovec_at :: "endianness \<Rightarrow> memory \<Rightarrow> ptr \<Rightarrow> iovec option" where
  "iovec_at host mem p = do {
     base \<leftarrow> load_field host mem p 0 8;
     len \<leftarrow> load_field host mem p 8 8;
     Some \<lparr>iov_base = base, iov_len = len\<rparr>
   }"

definition msghdr_at :: "endianness \<Rightarrow> memory \<Rightarrow> ptr \<Rightarrow> msghdr option" where
  "msghdr_at host mem p = do {
     name \<leftarrow> load_field host mem p 0 8;
     namelen \<leftarrow> load_field host mem p 8 4;
     iov \<leftarrow> load_field host mem p 16 8;
     iovlen \<leftarrow> load_field host mem p 24 8;
     control \<leftarrow> load_field host mem p 32 8;
     controllen \<leftarrow> load_field host mem p 40 8;
     flags \<leftarrow> load_field host mem p 48 4;
     Some \<lparr>msg_name = name, msg_namelen = namelen, msg_iov = iov, msg_iovlen = iovlen,
           msg_control = control, msg_controllen = controllen, msg_flags = flags\<rparr>
   }"

definition sockaddr_at :: "endianness \<Rightarrow> memory \<Rightarrow> ptr \<Rightarrow> sockaddr_in option" where
  "sockaddr_at host mem p = do {
     family \<leftarrow> load_field host mem p 0 2;
     port' \<leftarrow> load_field host mem p 2 2;
     addr' \<leftarrow> load_field host mem p 4 4;
     Some \<lparr>sin_family = family, sin_port = port', s_addr = addr'\<rparr>
   }"

text \<open>Submission and completion queue entries of the kernel interface; \<open>msg_flags\<close> of
  the submission entry is the member the receive-message operation uses of the
  entry's flag union.\<close>

datatype io_uring_op = IORING_OP_NOP | IORING_OP_RECVMSG

record io_uring_sqe =
  opcode :: io_uring_op
  sqe_flags :: "8 word"
  ioprio :: "16 word"
  fd :: "32 word"
  off :: "64 word"
  addr :: "64 word"
  len :: "32 word"
  sqe_msg_flags :: "32 word"
  user_data :: "64 word"

record io_uring_cqe =
  cqe_user_data :: "64 word"
  res :: "32 word"
  cqe_flags :: "32 word"

text \<open>An error number of the system-call layer: strictly positive and below 4096, so
  that its negation is a negative \<^verbatim>\<open>int\<close>.\<close>

typedef errno = "{e :: nat. 0 < e \<and> e < 4096}"
  by (rule exI [of _ 1]) simp

definition neg_errno :: "errno \<Rightarrow> 32 word" where
  "neg_errno e = word_of_int (- int (Rep_errno e))"

text \<open>\<^verbatim>\<open>EINTR\<close> of \<^verbatim>\<open>errno.h\<close>, which Linux sets to 4.\<close>

definition EINTR :: "32 word" where
  "EINTR = 4"

text \<open>What the kernel does while the thread is blocked in a wait: the system call fails
  with an error number, or a completion is posted. What it answers to a flush of the
  submission queue: it takes the entries, or the system call fails.\<close>

datatype wait_event = Failed errno | Posted io_uring_cqe

datatype submit_event = Accepted | Rejected errno

text \<open>The ring \<^verbatim>\<open>struct io_uring\<close>, as far as the five functions can observe it:
  \<^item> \<open>sq_entries\<close>: the capacity of the submission queue;
  \<^item> \<open>sq\<close>: the slots handed out and not yet taken by the kernel, oldest first;
  \<^item> \<open>submitted\<close>: the entries the kernel has taken, oldest first;
  \<^item> \<open>cq\<close>: the completions posted and not yet marked seen, oldest first;
  \<^item> \<open>cq_head\<close>: the head counter of the completion queue, the number of completions
    marked seen so far;
  \<^item> \<open>wait_events\<close>, \<open>submit_events\<close>: what the kernel will do at the next blocking
    waits and at the next flushes.\<close>

record io_uring =
  sq_entries :: nat
  sq :: "io_uring_sqe list"
  submitted :: "io_uring_sqe list"
  cq :: "io_uring_cqe list"
  cq_head :: "32 word"
  wait_events :: "wait_event stream"
  submit_events :: "submit_event stream"

subsection \<open>The liburing primitives the file calls\<close>

text \<open>Modelled from the spec: \<^verbatim>\<open>io_uring_wait_cqe\<close> of liburing, which "blocks on the
  completion queue" until "a completion event is available" and can fail "because a
  signal interrupted it". It returns 0 and the oldest unseen completion without
  consuming it, or the negated error number and no completion.\<close>

definition io_uring_wait_cqe :: "io_uring \<Rightarrow> 32 word \<times> io_uring_cqe option \<times> io_uring" where
  "io_uring_wait_cqe ring =
     (case cq ring of
        c # _ \<Rightarrow> (0, Some c, ring)
      | [] \<Rightarrow>
          (case shd (wait_events ring) of
             Failed e \<Rightarrow>
               (neg_errno e, None, ring\<lparr>wait_events := stl (wait_events ring)\<rparr>)
           | Posted c \<Rightarrow>
               (0, Some c, ring\<lparr>cq := [c], wait_events := stl (wait_events ring)\<rparr>)))"

text \<open>Modelled from the spec: \<^verbatim>\<open>io_uring_cqe_get_data\<close> of liburing, which extracts
  "the completion's opaque correlation handle" as a pointer.\<close>

definition io_uring_cqe_get_data :: "io_uring_cqe \<Rightarrow> ptr" where
  "io_uring_cqe_get_data cqe = cqe_user_data cqe"

text \<open>Modelled from the spec: \<^verbatim>\<open>io_uring_cqe_seen\<close> of liburing, which marks the
  completion slot "seen", releasing it "back to the kernel": the head of the completion
  queue advances by one entry. The completion passed is the one at the head, and is not
  null.\<close>

definition io_uring_cqe_seen :: "io_uring \<Rightarrow> io_uring_cqe \<Rightarrow> io_uring" where
  "io_uring_cqe_seen ring cqe = ring\<lparr>cq := tl (cq ring), cq_head := cq_head ring + 1\<rparr>"

subsection \<open>Completion wait\<close>

text \<open>\<^verbatim>\<open>receive_into\<close>. The \<^verbatim>\<open>goto again\<close> loop is the recursive call; a call that is
  interrupted for ever does not return, which is the value \<open>None\<close>. A returning call
  yields the \<^verbatim>\<open>int\<close> it returns and the ring it leaves behind.\<close>

partial_function (option) receive_into :: "io_uring \<Rightarrow> (fault + 32 word \<times> io_uring) option" where
  "receive_into ring =
     (case io_uring_wait_cqe ring of
        (ret, cqe, ring1) \<Rightarrow>
          if ret = - EINTR then receive_into ring1
          else if ret <s 0 then Some (Inr (ret, ring1))
          else
            (case cqe of
               None \<Rightarrow> Some (Inl NullDereference)
             | Some c \<Rightarrow>
                 if res c <s 0 then Some (Inr (res c, ring1))
                 else
                   let mhdr = io_uring_cqe_get_data c in
                   if mhdr = NULL then Some (Inr (- 1, ring1))
                   else
                     let n = res c;
                         ring2 = io_uring_cqe_seen ring1 c
                     in Some (Inr (n, ring2))))"

subsection \<open>Address decoding\<close>

text \<open>The kernel writes the port and the address of the sender in network order, most
  significant byte first: \<open>net32\<close> and \<open>net16\<close> are the numbers such bytes denote,
  \<open>load32\<close> and \<open>load16\<close> what the host reads from them.\<close>

definition net32 :: "8 word \<Rightarrow> 8 word \<Rightarrow> 8 word \<Rightarrow> 8 word \<Rightarrow> 32 word" where
  "net32 b0 b1 b2 b3 =
     push_bit 24 (ucast b0) OR push_bit 16 (ucast b1) OR push_bit 8 (ucast b2) OR ucast b3"

definition net16 :: "8 word \<Rightarrow> 8 word \<Rightarrow> 16 word" where
  "net16 b0 b1 = push_bit 8 (ucast b0) OR ucast b1"

definition load32 :: "endianness \<Rightarrow> 8 word \<Rightarrow> 8 word \<Rightarrow> 8 word \<Rightarrow> 8 word \<Rightarrow> 32 word" where
  "load32 host b0 b1 b2 b3 =
     (case host of BigEndian \<Rightarrow> net32 b0 b1 b2 b3 | LittleEndian \<Rightarrow> net32 b3 b2 b1 b0)"

definition load16 :: "endianness \<Rightarrow> 8 word \<Rightarrow> 8 word \<Rightarrow> 16 word" where
  "load16 host b0 b1 = (case host of BigEndian \<Rightarrow> net16 b0 b1 | LittleEndian \<Rightarrow> net16 b1 b0)"

text \<open>Modelled from the spec: \<^verbatim>\<open>ntohl\<close> and \<^verbatim>\<open>ntohs\<close> of the C library, which convert
  a "network-byte-order" field into a "host-byte-order" integer: the identity on a
  big-endian host, the swap of the bytes on a little-endian one.\<close>

definition bswap_32 :: "32 word \<Rightarrow> 32 word" where
  "bswap_32 x =
     drop_bit 24 (x AND 0xff000000) OR drop_bit 8 (x AND 0x00ff0000) OR
     push_bit 8 (x AND 0x0000ff00) OR push_bit 24 (x AND 0x000000ff)"

definition bswap_16 :: "16 word \<Rightarrow> 16 word" where
  "bswap_16 x = drop_bit 8 (x AND 0xff00) OR push_bit 8 (x AND 0x00ff)"

definition ntohl :: "endianness \<Rightarrow> 32 word \<Rightarrow> 32 word" where
  "ntohl host x = (case host of BigEndian \<Rightarrow> x | LittleEndian \<Rightarrow> bswap_32 x)"

definition ntohs :: "endianness \<Rightarrow> 16 word \<Rightarrow> 16 word" where
  "ntohs host x = (case host of BigEndian \<Rightarrow> x | LittleEndian \<Rightarrow> bswap_16 x)"

text \<open>\<^verbatim>\<open>ip\<close> and \<^verbatim>\<open>port\<close>: each loads one member through the pointer, \<^verbatim>\<open>sin_addr.s_addr\<close>
  (4 bytes at offset 4) and \<^verbatim>\<open>sin_port\<close> (2 bytes at offset 2), and converts it. They
  take the memory and return a value only: they store nothing.\<close>

definition ip :: "endianness \<Rightarrow> memory \<Rightarrow> ptr \<Rightarrow> fault + 32 word" where
  "ip host mem sa =
     (case load_field host mem sa 4 4 of
        None \<Rightarrow> Inl (segfault sa)
      | Some x \<Rightarrow> Inr (ntohl host x))"

definition port :: "endianness \<Rightarrow> memory \<Rightarrow> ptr \<Rightarrow> fault + 16 word" where
  "port host mem sa =
     (case load_field host mem sa 2 2 of
        None \<Rightarrow> Inl (segfault sa)
      | Some x \<Rightarrow> Inr (ntohs host x))"

subsection \<open>Submission\<close>

text \<open>A faulting step ends the call: \<open>seq\<close> runs the rest only after a step that did
  not fault.\<close>

definition seq :: "fault + 'a \<Rightarrow> ('a \<Rightarrow> fault + 'b) \<Rightarrow> fault + 'b" where
  "seq m f = (case m of Inl e \<Rightarrow> Inl e | Inr x \<Rightarrow> f x)"

text \<open>\<^verbatim>\<open>sizeof(struct sockaddr_in)\<close>, 16 bytes on Linux.\<close>

definition sizeof_sockaddr_in :: "32 word" where
  "sizeof_sockaddr_in = 16"

text \<open>Modelled from the spec: \<^verbatim>\<open>io_uring_get_sqe\<close> of liburing, which "obtains one
  submission-queue slot from the ring", or yields the null slot when "no submission
  slot is available". A slot is the index of an entry of \<open>sq\<close>, the null slot is \<open>None\<close>.
  What a fresh slot holds does not matter: both populate steps overwrite every field.\<close>

definition blank_sqe :: io_uring_sqe where
  "blank_sqe = \<lparr>opcode = IORING_OP_NOP, sqe_flags = 0, ioprio = 0, fd = 0, off = 0, addr = 0,
     len = 0, sqe_msg_flags = 0, user_data = 0\<rparr>"

definition io_uring_get_sqe :: "io_uring \<Rightarrow> nat option \<times> io_uring" where
  "io_uring_get_sqe ring =
     (if length (sq ring) < sq_entries ring
      then (Some (length (sq ring)), ring\<lparr>sq := sq ring @ [blank_sqe]\<rparr>)
      else (None, ring))"

text \<open>An assignment through a slot pointer: a fault on the null slot.\<close>

definition write_sqe :: "nat option \<Rightarrow> (io_uring_sqe \<Rightarrow> io_uring_sqe) \<Rightarrow> io_uring \<Rightarrow> fault + io_uring" where
  "write_sqe sqe f ring =
     (case sqe of
        None \<Rightarrow> Inl NullDereference
      | Some i \<Rightarrow>
          if i < length (sq ring) then Inr (ring\<lparr>sq := (sq ring)[i := f (sq ring ! i)]\<rparr>)
          else Inl InvalidPointer)"

text \<open>Modelled from the spec: the populate steps of liburing. \<^verbatim>\<open>io_uring_prep_recvmsg\<close>
  "populates" the slot "as a receive message operation" on the socket and the message
  header with the given flags; \<^verbatim>\<open>io_uring_prep_nop\<close> "marks it as a no-operation", with
  "no correlation handle attached"; \<^verbatim>\<open>io_uring_sqe_set_data\<close> "tags it with the
  correlation handle". Both populate steps go through \<^verbatim>\<open>io_uring_prep_rw\<close>, which sets
  every field of the entry.\<close>

definition io_uring_prep_rw :: "io_uring_op \<Rightarrow> 32 word \<Rightarrow> ptr \<Rightarrow> 32 word \<Rightarrow> 64 word \<Rightarrow> io_uring_sqe" where
  "io_uring_prep_rw op fd' addr' len' offset =
     \<lparr>opcode = op, sqe_flags = 0, ioprio = 0, fd = fd', off = offset, addr = addr',
      len = len', sqe_msg_flags = 0, user_data = 0\<rparr>"

definition io_uring_prep_recvmsg :: "nat option \<Rightarrow> 32 word \<Rightarrow> ptr \<Rightarrow> 32 word \<Rightarrow> io_uring \<Rightarrow> fault + io_uring" where
  "io_uring_prep_recvmsg sqe fd' msg flags' ring =
     write_sqe sqe (\<lambda>_. (io_uring_prep_rw IORING_OP_RECVMSG fd' msg 1 0)\<lparr>sqe_msg_flags := flags'\<rparr>) ring"

definition io_uring_prep_nop :: "nat option \<Rightarrow> io_uring \<Rightarrow> fault + io_uring" where
  "io_uring_prep_nop sqe ring = write_sqe sqe (\<lambda>_. io_uring_prep_rw IORING_OP_NOP (- 1) NULL 0 0) ring"

definition io_uring_sqe_set_data :: "nat option \<Rightarrow> ptr \<Rightarrow> io_uring \<Rightarrow> fault + io_uring" where
  "io_uring_sqe_set_data sqe data ring = write_sqe sqe (\<lambda>e. e\<lparr>user_data := data\<rparr>) ring"

text \<open>Modelled from the spec: \<^verbatim>\<open>io_uring_submit\<close> of liburing, which "flushes the
  submission queue to the kernel". The kernel takes every pending entry and the call
  returns their number, or the system call fails, the entries stay pending and the call
  returns the negated error number.\<close>

definition io_uring_submit :: "io_uring \<Rightarrow> 32 word \<times> io_uring" where
  "io_uring_submit ring =
     (case shd (submit_events ring) of
        Accepted \<Rightarrow>
          (word_of_nat (length (sq ring)),
           ring\<lparr>sq := [], submitted := submitted ring @ sq ring,
                submit_events := stl (submit_events ring)\<rparr>)
      | Rejected e \<Rightarrow> (neg_errno e, ring\<lparr>submit_events := stl (submit_events ring)\<rparr>))"

text \<open>\<^verbatim>\<open>submit_recvmsg_request\<close>, statement by statement: each of the six assignments is
  a store of the member's bytes at the member's address, whatever lies there. The
  \<^verbatim>\<open>int buflen\<close> converts to the \<^verbatim>\<open>size_t iov_len\<close> by sign extension; the value
  \<^verbatim>\<open>io_uring_submit\<close> returns is dropped. A returning call yields the \<^verbatim>\<open>int\<close> it
  returns, the ring and the memory.\<close>

definition submit_recvmsg_request ::
  "endianness \<Rightarrow> 32 word \<Rightarrow> io_uring \<Rightarrow> ptr \<Rightarrow> ptr \<Rightarrow> ptr \<Rightarrow> ptr \<Rightarrow> 32 word \<Rightarrow> memory
    \<Rightarrow> fault + 32 word \<times> io_uring \<times> memory" where
  "submit_recvmsg_request host sock ring mhdr iov sender buf buflen mem =
     seq (store_field host iov 0 8 buf mem) (\<lambda>mem.
     seq (store_field host iov 8 8 (scast buflen :: 64 word) mem) (\<lambda>mem.
     seq (store_field host mhdr 16 8 iov mem) (\<lambda>mem.
     seq (store_field host mhdr 24 8 (1 :: 64 word) mem) (\<lambda>mem.
     seq (store_field host mhdr 0 8 sender mem) (\<lambda>mem.
     seq (store_field host mhdr 8 4 sizeof_sockaddr_in mem) (\<lambda>mem.
     case io_uring_get_sqe ring of
       (sqe, ring) \<Rightarrow>
         seq (io_uring_prep_recvmsg sqe sock mhdr 0 ring) (\<lambda>ring.
         seq (io_uring_sqe_set_data sqe mhdr ring) (\<lambda>ring.
         case io_uring_submit ring of
           (_, ring) \<Rightarrow> Inr (0, ring, mem)))))))))"

text \<open>\<^verbatim>\<open>submit_nop_request\<close>, which returns nothing: a returning call yields the ring.\<close>

definition submit_nop_request :: "io_uring \<Rightarrow> fault + io_uring" where
  "submit_nop_request ring =
     (case io_uring_get_sqe ring of
        (sqe, ring) \<Rightarrow>
          seq (io_uring_prep_nop sqe ring) (\<lambda>ring.
          case io_uring_submit ring of
            (_, ring) \<Rightarrow> Inr ring))"


subsection \<open>Concrete rings and memories\<close>

text \<open>The inputs the theorems below are run on. \<open>eintr\<close>, \<open>eagain\<close> and \<open>eperm\<close> are
  the error numbers 4, 11 and 1 of Linux. \<open>example_ring\<close> is a ring of one submission
  slot with nothing pending, whose kernel accepts every flush and interrupts every wait.
  The completions are those of a receive of 10 bytes, of a receive that failed with
  \<^verbatim>\<open>-EAGAIN\<close>, of a receive that failed with \<^verbatim>\<open>-EPERM\<close>, and of a no-op; the receives
  carry the address \<open>0x1000\<close> of their message header.\<close>

definition eintr :: errno where
  "eintr = Abs_errno 4"

definition eagain :: errno where
  "eagain = Abs_errno 11"

definition eperm :: errno where
  "eperm = Abs_errno 1"

definition example_ring :: io_uring where
  "example_ring =
     \<lparr>sq_entries = 1, sq = [], submitted = [], cq = [], cq_head = 0,
      wait_events = sconst (Failed eintr), submit_events = sconst Accepted\<rparr>"

definition recv_done :: io_uring_cqe where
  "recv_done = \<lparr>cqe_user_data = 0x1000, res = 10, cqe_flags = 0\<rparr>"

definition recv_failed :: io_uring_cqe where
  "recv_failed = \<lparr>cqe_user_data = 0x1000, res = - 11, cqe_flags = 0\<rparr>"

definition recv_eperm :: io_uring_cqe where
  "recv_eperm = \<lparr>cqe_user_data = 0x1000, res = - 1, cqe_flags = 0\<rparr>"

definition nop_done :: io_uring_cqe where
  "nop_done = \<lparr>cqe_user_data = 0, res = 0, cqe_flags = 0\<rparr>"

text \<open>A memory of a little-endian host with a message header at \<open>0x1000\<close> (its control
  buffer at \<open>0x5000\<close>, of 32 bytes, its other members 0), a scatter/gather vector of
  zeros at \<open>0x2000\<close>, a sender-address slot at \<open>0x3000\<close> holding 127.0.0.1 port 12345, and
  a buffer of 64 bytes at \<open>0x4000\<close> whose first byte is \<open>0x41\<close>.\<close>

definition example_memory :: memory where
  "example_memory =
     place 0x1000
       [0, 0, 0, 0, 0, 0, 0, 0,  0, 0, 0, 0, 0, 0, 0, 0,
        0, 0, 0, 0, 0, 0, 0, 0,  0, 0, 0, 0, 0, 0, 0, 0,
        0, 0x50, 0, 0, 0, 0, 0, 0,  32, 0, 0, 0, 0, 0, 0, 0,
        0, 0, 0, 0, 0, 0, 0, 0]
     (place 0x2000 (replicate 16 0)
     (place 0x3000 [2, 0, 0x30, 0x39, 127, 0, 0, 1, 0, 0, 0, 0, 0, 0, 0, 0]
     (place 0x4000 (0x41 # replicate 63 0) Map.empty)))"

text \<open>A ring whose next two waits are interrupted and whose third fails with
  \<^verbatim>\<open>-EAGAIN\<close>.\<close>

definition interrupted_ring :: io_uring where
  "interrupted_ring =
     example_ring\<lparr>wait_events :=
       Failed eintr ## Failed eintr ## Failed eagain ## sconst (Posted recv_done)\<rparr>"

text \<open>Rings whose completion queue holds one completion, ready to be handed out.\<close>

definition failed_ring :: io_uring where
  "failed_ring = example_ring\<lparr>cq := [recv_failed]\<rparr>"

definition nop_ring :: io_uring where
  "nop_ring = example_ring\<lparr>cq := [nop_done]\<rparr>"

definition done_ring :: io_uring where
  "done_ring = example_ring\<lparr>cq := [recv_done]\<rparr>"

definition eperm_ring :: io_uring where
  "eperm_ring = example_ring\<lparr>cq := [recv_eperm]\<rparr>"

text \<open>The entry \<^verbatim>\<open>submit_recvmsg_request\<close> leaves in its slot, and the memory after its six
  assignments.\<close>

definition recvmsg_sqe :: "32 word \<Rightarrow> ptr \<Rightarrow> io_uring_sqe" where
  "recvmsg_sqe sock mhdr =
     \<lparr>opcode = IORING_OP_RECVMSG, sqe_flags = 0, ioprio = 0, fd = sock, off = 0, addr = mhdr,
      len = 1, sqe_msg_flags = 0, user_data = mhdr\<rparr>"

definition wired :: "endianness \<Rightarrow> memory \<Rightarrow> ptr \<Rightarrow> ptr \<Rightarrow> ptr \<Rightarrow> ptr \<Rightarrow> 32 word \<Rightarrow> memory" where
  "wired host mem mhdr iov sender buf buflen =
     stored host mhdr 8 4 sizeof_sockaddr_in
       (stored host mhdr 0 8 sender
         (stored host mhdr 24 8 (1 :: 64 word)
           (stored host mhdr 16 8 iov
             (stored host iov 8 8 (scast buflen :: 64 word)
               (stored host iov 0 8 buf mem)))))"

text \<open>The ring after a receive is submitted on \<open>example_ring\<close> for socket 3 and the
  header at \<open>0x1000\<close>.\<close>

definition submitted_ring :: io_uring where
  "submitted_ring =
     example_ring\<lparr>submitted :=
       [\<lparr>opcode = IORING_OP_RECVMSG, sqe_flags = 0, ioprio = 0, fd = 3, off = 0, addr = 0x1000,
         len = 1, sqe_msg_flags = 0, user_data = 0x1000\<rparr>]\<rparr>"

text \<open>A ring whose kernel rejects every flush with \<^verbatim>\<open>-EAGAIN\<close>, and the same ring after
  one \<^verbatim>\<open>submit_nop_request\<close>: the no-op stays pending and fills the only slot.\<close>

definition busy_ring :: io_uring where
  "busy_ring = example_ring\<lparr>submit_events := sconst (Rejected eagain)\<rparr>"

definition jammed_ring :: io_uring where
  "jammed_ring =
     busy_ring\<lparr>sq :=
       [\<lparr>opcode = IORING_OP_NOP, sqe_flags = 0, ioprio = 0, fd = - 1, off = 0, addr = 0,
         len = 0, sqe_msg_flags = 0, user_data = 0\<rparr>]\<rparr>"

text \<open>A ring on which the first wait is interrupted and the second is handed the completion
  of a no-op.\<close>

definition interrupted_nop_ring :: io_uring where
  "interrupted_nop_ring =
     example_ring\<lparr>wait_events := Failed eintr ## Posted nop_done ## sconst (Failed eintr)\<rparr>"


section \<open>Properties\<close>

subsection \<open>Error numbers\<close>

lemma sint_neg_errno: "sint (neg_errno e) = - int (Rep_errno e)"
proof -
  from Rep_errno [of e] have b: "0 < Rep_errno e" "Rep_errno e < 4096" by auto
  have "signed_take_bit 31 (- int (Rep_errno e)) = - int (Rep_errno e)"
    using b by (intro signed_take_bit_int_eq_self) simp_all
  then show ?thesis unfolding neg_errno_def sint_sbintrunc' by simp
qed

lemma neg_errno_negative: "neg_errno e <s 0"
  using Rep_errno [of e] by (simp add: word_sless_alt sint_neg_errno)

lemma neg_errno_inject: "neg_errno a = neg_errno b \<Longrightarrow> a = b"
proof -
  assume "neg_errno a = neg_errno b"
  then have "sint (neg_errno a) = sint (neg_errno b)" by simp
  then show "a = b" by (simp add: sint_neg_errno Rep_errno_inject)
qed

lemma neg_errno_Abs: "0 < n \<Longrightarrow> n < 4096 \<Longrightarrow> neg_errno (Abs_errno n) = word_of_int (- int n)"
  by (simp add: neg_errno_def Abs_errno_inverse)

lemma neg_errno_eintr: "neg_errno eintr = - EINTR"
  by (simp add: eintr_def neg_errno_Abs EINTR_def)

lemma neg_errno_eagain: "neg_errno eagain = - 11"
  by (simp add: eagain_def neg_errno_Abs)

lemma neg_errno_eperm: "neg_errno eperm = - 1"
  by (simp add: eperm_def neg_errno_Abs)

subsection \<open>One wait\<close>

lemma wait_ready: "cq ring = c # cs \<Longrightarrow> io_uring_wait_cqe ring = (0, Some c, ring)"
  by (simp add: io_uring_wait_cqe_def)

lemma wait_failed:
  "cq ring = [] \<Longrightarrow> shd (wait_events ring) = Failed e \<Longrightarrow>
   io_uring_wait_cqe ring = (neg_errno e, None, ring\<lparr>wait_events := stl (wait_events ring)\<rparr>)"
  by (simp add: io_uring_wait_cqe_def)

lemma wait_posted:
  "cq ring = [] \<Longrightarrow> shd (wait_events ring) = Posted c \<Longrightarrow>
   io_uring_wait_cqe ring = (0, Some c, ring\<lparr>cq := [c], wait_events := stl (wait_events ring)\<rparr>)"
  by (simp add: io_uring_wait_cqe_def)

lemma wait_cases:
  obtains (ready) c cs where "cq ring = c # cs" "io_uring_wait_cqe ring = (0, Some c, ring)"
  | (failed) e where "cq ring = []" "shd (wait_events ring) = Failed e"
      "io_uring_wait_cqe ring = (neg_errno e, None, ring\<lparr>wait_events := stl (wait_events ring)\<rparr>)"
  | (posted) c where "cq ring = []" "shd (wait_events ring) = Posted c"
      "io_uring_wait_cqe ring = (0, Some c, ring\<lparr>cq := [c], wait_events := stl (wait_events ring)\<rparr>)"
proof (cases "cq ring")
  case Nil
  then show ?thesis
    by (cases "shd (wait_events ring)") (auto intro: failed posted simp: wait_failed wait_posted)
next
  case (Cons c cs)
  then show ?thesis by (auto intro: ready simp: wait_ready)
qed

text \<open>The wait hands out a completion only from the head of the completion queue it
  leaves behind, and then returns 0.\<close>

lemma wait_handed:
  "io_uring_wait_cqe ring = (ret, Some c, ring1) \<Longrightarrow> ret = 0 \<and> (\<exists>cs. cq ring1 = c # cs)"
  by (cases ring rule: wait_cases) auto

lemma wait_not_handed:
  "io_uring_wait_cqe ring = (ret, None, ring1) \<Longrightarrow> ret <s 0"
  by (cases ring rule: wait_cases) (auto simp: neg_errno_negative)

subsection \<open>The decode branches and the retry loop\<close>

lemma receive_into_handed:
  "io_uring_wait_cqe ring = (ret, Some c, ring1) \<Longrightarrow>
   receive_into ring =
     Some (Inr (if res c <s 0 then (res c, ring1)
                else if io_uring_cqe_get_data c = NULL then (- 1, ring1)
                else (res c, io_uring_cqe_seen ring1 c)))"
  by (cases ring rule: wait_cases; subst receive_into.simps)
     (auto simp: EINTR_def Let_def)

lemma receive_into_interrupted:
  "cq ring = [] \<Longrightarrow> shd (wait_events ring) = Failed e \<Longrightarrow> neg_errno e = - EINTR \<Longrightarrow>
   receive_into ring = receive_into (ring\<lparr>wait_events := stl (wait_events ring)\<rparr>)"
  by (subst receive_into.simps) (simp add: wait_failed)

lemma receive_into_failed:
  "cq ring = [] \<Longrightarrow> shd (wait_events ring) = Failed e \<Longrightarrow> neg_errno e \<noteq> - EINTR \<Longrightarrow>
   receive_into ring = Some (Inr (neg_errno e, ring\<lparr>wait_events := stl (wait_events ring)\<rparr>))"
  by (subst receive_into.simps) (simp add: wait_failed neg_errno_negative)

lemma receive_into_skips:
  "cq ring = [] \<Longrightarrow> neg_errno e = - EINTR \<Longrightarrow> wait_events ring = replicate k (Failed e) @- s \<Longrightarrow>
   receive_into ring = receive_into (ring\<lparr>wait_events := s\<rparr>)"
proof (induction k arbitrary: ring)
  case 0
  then have "ring\<lparr>wait_events := s\<rparr> = ring" by simp
  then show ?case by simp
next
  case (Suc k)
  let ?ring1 = "ring\<lparr>wait_events := stl (wait_events ring)\<rparr>"
  from Suc.prems have "receive_into ring = receive_into ?ring1"
    by (intro receive_into_interrupted [of ring e]) simp_all
  also from Suc.prems have "\<dots> = receive_into (?ring1\<lparr>wait_events := s\<rparr>)"
    by (intro Suc.IH) simp_all
  finally show ?case by simp
qed

text \<open>Induction over the iterations of a call that returns.\<close>

lemmas receive_into_induct = receive_into.raw_induct [rotated 1, consumes 1, case_names step]

lemma receive_into_interrupted_forever:
  assumes "neg_errno e = - EINTR" and "cq ring = []" and "wait_events ring = sconst (Failed e)"
  shows "receive_into ring = None"
proof -
  have "\<not> (cq ring = [] \<and> wait_events ring = sconst (Failed e))"
    if "receive_into ring = Some out" for out
    using that
  proof (induct ring out rule: receive_into_induct)
    case (step f ring out)
    show ?case
    proof
      assume a: "cq ring = [] \<and> wait_events ring = sconst (Failed e)"
      let ?ring1 = "ring\<lparr>wait_events := stl (wait_events ring)\<rparr>"
      from a have w: "io_uring_wait_cqe ring = (neg_errno e, None, ?ring1)"
        by (intro wait_failed) simp_all
      from step(2) w assms(1) have "f ?ring1 = Some out" by simp
      moreover from a have "cq ?ring1 = []" by simp
      moreover from a have "wait_events ?ring1 = sconst (Failed e)" by simp
      ultimately show False using step(1) by blast
    qed
  qed
  with assms(2,3) show ?thesis by (cases "receive_into ring") auto
qed

lemma receive_into_returns_after_interruptions:
  assumes "neg_errno e = - EINTR" and "receive_into ring = Some out" and "cq ring = []"
  shows "\<exists>r ring' k ev. out = Inr (r, ring') \<and>
           wait_events ring = replicate k (Failed e) @- ev ## wait_events ring' \<and>
           ev \<noteq> Failed e \<and> (\<forall>e'. ev = Failed e' \<longrightarrow> r = neg_errno e' \<and> r \<noteq> - EINTR)"
  using assms(2,3)
proof (induct ring out rule: receive_into_induct)
  case (step f ring out)
  let ?ring1 = "ring\<lparr>wait_events := stl (wait_events ring)\<rparr>"
  show ?case
  proof (cases "shd (wait_events ring)")
    case (Failed e')
    with step(3) have w: "io_uring_wait_cqe ring = (neg_errno e', None, ?ring1)"
      by (intro wait_failed) simp_all
    show ?thesis
    proof (cases "neg_errno e' = - EINTR")
      case True
      with assms(1) have e': "e' = e" by (simp add: neg_errno_inject)
      from step(2) w True have "f ?ring1 = Some out" by simp
      moreover from step(3) have "cq ?ring1 = []" by simp
      ultimately obtain r ring' k ev where
        o: "out = Inr (r, ring')"
        and ev: "wait_events ?ring1 = replicate k (Failed e) @- ev ## wait_events ring'"
        "ev \<noteq> Failed e" "\<forall>e'. ev = Failed e' \<longrightarrow> r = neg_errno e' \<and> r \<noteq> - EINTR"
        using step(1) [of ?ring1 out] by auto
      have "wait_events ring = shd (wait_events ring) ## stl (wait_events ring)" by simp
      also have "\<dots> = replicate (Suc k) (Failed e) @- ev ## wait_events ring'"
        using ev(1) Failed e' by simp
      finally have "wait_events ring = replicate (Suc k) (Failed e) @- ev ## wait_events ring'" .
      with o ev(2,3) show ?thesis
        by (intro exI [of _ r] exI [of _ ring'] exI [of _ "Suc k"] exI [of _ ev]) auto
    next
      case False
      with step(2) w have o: "out = Inr (neg_errno e', ?ring1)"
        by (simp add: neg_errno_negative)
      have "wait_events ring = replicate 0 (Failed e) @- Failed e' ## wait_events ?ring1"
        using Failed by (simp add: stream.expand)
      moreover from False assms(1) have "Failed e' \<noteq> Failed e" by auto
      ultimately show ?thesis using o False
        by (intro exI [of _ "neg_errno e'"] exI [of _ ?ring1] exI [of _ 0] exI [of _ "Failed e'"]) simp
    qed
  next
    case (Posted c)
    let ?ring2 = "ring\<lparr>cq := [c], wait_events := stl (wait_events ring)\<rparr>"
    from Posted step(3) have w: "io_uring_wait_cqe ring = (0, Some c, ?ring2)"
      by (intro wait_posted) simp_all
    with step(2) obtain r ring' where o: "out = Inr (r, ring')"
      and r: "ring' = ?ring2 \<or> ring' = io_uring_cqe_seen ?ring2 c"
      by (auto simp: EINTR_def Let_def split: if_splits)
    from r have "wait_events ring' = stl (wait_events ring)"
      by (auto simp: io_uring_cqe_seen_def)
    then have "wait_events ring = replicate 0 (Failed e) @- Posted c ## wait_events ring'"
      using Posted by (simp add: stream.expand)
    then show ?thesis using o
      by (intro exI [of _ r] exI [of _ ring'] exI [of _ 0] exI [of _ "Posted c"]) simp
  qed
qed

subsection \<open>Interrupted waits\<close>

text \<open>C3: a wait that fails with \<^verbatim>\<open>-EINTR\<close> is retried and never surfaces. Let the
  completion queue be empty, so that the call blocks, and let \<open>e\<close> be the error number
  of an interruption. Then
  \<^item> a call whose wait returns \<^verbatim>\<open>-EINTR\<close> goes on as the call made on the ring that the
    wait leaves;
  \<^item> any number of interrupted waits at the start of the call is skipped: the call
    behaves as the call made after them;
  \<^item> if the first wait that is not interrupted exists, the call returns, having consumed
    the kernel's events up to it, and when that wait failed the call returns its code,
    which is not \<^verbatim>\<open>-EINTR\<close>;
  \<^item> if every wait is interrupted, the call never returns;
  \<^item> whenever the call returns, some number of interrupted waits was followed by one
    that was not interrupted.\<close>

theorem receive_into_retries_interrupted_waits:
  assumes "cq ring = []" and "neg_errno e = - EINTR"
  shows "(\<forall>cqe ring1. io_uring_wait_cqe ring = (- EINTR, cqe, ring1) \<longrightarrow>
            receive_into ring = receive_into ring1)
       \<and> (\<forall>k s. wait_events ring = replicate k (Failed e) @- s \<longrightarrow>
            receive_into ring = receive_into (ring\<lparr>wait_events := s\<rparr>))
       \<and> (\<forall>k ev s. wait_events ring = replicate k (Failed e) @- ev ## s \<and> ev \<noteq> Failed e \<longrightarrow>
            (\<exists>r ring'. receive_into ring = Some (Inr (r, ring')) \<and> wait_events ring' = s \<and>
               (\<forall>e'. ev = Failed e' \<longrightarrow> r = neg_errno e' \<and> r \<noteq> - EINTR)))
       \<and> (wait_events ring = sconst (Failed e) \<longrightarrow> receive_into ring = None)
       \<and> (\<forall>out. receive_into ring = Some out \<longrightarrow>
            (\<exists>r ring' k ev. out = Inr (r, ring') \<and>
               wait_events ring = replicate k (Failed e) @- ev ## wait_events ring' \<and>
               ev \<noteq> Failed e \<and> (\<forall>e'. ev = Failed e' \<longrightarrow> r = neg_errno e' \<and> r \<noteq> - EINTR)))"
proof (intro conjI allI impI)
  fix cqe ring1
  assume "io_uring_wait_cqe ring = (- EINTR, cqe, ring1)"
  then show "receive_into ring = receive_into ring1"
    by (subst receive_into.simps) simp
next
  fix k s
  assume "wait_events ring = replicate k (Failed e) @- s"
  with assms show "receive_into ring = receive_into (ring\<lparr>wait_events := s\<rparr>)"
    by (intro receive_into_skips)
next
  fix k ev s
  assume a: "wait_events ring = replicate k (Failed e) @- ev ## s \<and> ev \<noteq> Failed e"
  let ?ring0 = "ring\<lparr>wait_events := ev ## s\<rparr>"
  from assms a have skip: "receive_into ring = receive_into ?ring0"
    by (intro receive_into_skips) simp_all
  show "\<exists>r ring'. receive_into ring = Some (Inr (r, ring')) \<and> wait_events ring' = s \<and>
          (\<forall>e'. ev = Failed e' \<longrightarrow> r = neg_errno e' \<and> r \<noteq> - EINTR)"
  proof (cases ev)
    case (Failed e')
    have ne: "neg_errno e' \<noteq> - EINTR"
    proof
      assume "neg_errno e' = - EINTR"
      with assms(2) have "e' = e" by (intro neg_errno_inject) simp
      with a Failed show False by simp
    qed
    from assms(1) Failed ne have "receive_into ?ring0 =
        Some (Inr (neg_errno e', ?ring0\<lparr>wait_events := stl (wait_events ?ring0)\<rparr>))"
      by (intro receive_into_failed) simp_all
    with skip Failed ne show ?thesis by simp
  next
    case (Posted c)
    from assms(1) Posted have "io_uring_wait_cqe ?ring0 =
        (0, Some c, ?ring0\<lparr>cq := [c], wait_events := stl (wait_events ?ring0)\<rparr>)"
      by (intro wait_posted) simp_all
    from receive_into_handed [OF this] skip Posted show ?thesis
      by (simp add: io_uring_cqe_seen_def)
  qed
next
  assume "wait_events ring = sconst (Failed e)"
  with assms show "receive_into ring = None"
    by (intro receive_into_interrupted_forever [of e])
next
  fix out
  assume "receive_into ring = Some out"
  with assms show "\<exists>r ring' k ev. out = Inr (r, ring') \<and>
               wait_events ring = replicate k (Failed e) @- ev ## wait_events ring' \<and>
               ev \<noteq> Failed e \<and> (\<forall>e'. ev = Failed e' \<longrightarrow> r = neg_errno e' \<and> r \<noteq> - EINTR)"
    by (intro receive_into_returns_after_interruptions)
qed

text \<open>Two interruptions, then a wait that fails with \<^verbatim>\<open>-EAGAIN\<close>: the call returns -11.
  Interruptions for ever: the call does not return.\<close>

theorem receive_into_retries_interrupted_waits_witness:
  "cq interrupted_ring = [] \<and> neg_errno eintr = - EINTR
   \<and> receive_into interrupted_ring =
       Some (Inr (- 11, interrupted_ring\<lparr>wait_events := sconst (Posted recv_done)\<rparr>))
   \<and> receive_into example_ring = None"
proof -
  have c: "cq interrupted_ring = []" and c': "cq example_ring = []"
    by (simp_all add: interrupted_ring_def example_ring_def)
  note t = receive_into_retries_interrupted_waits [OF c neg_errno_eintr]
  note t' = receive_into_retries_interrupted_waits [OF c' neg_errno_eintr]
  have "wait_events interrupted_ring =
      replicate 2 (Failed eintr) @- Failed eagain ## sconst (Posted recv_done)"
    by (simp add: interrupted_ring_def numeral_2_eq_2)
  with t have "receive_into interrupted_ring =
      receive_into (interrupted_ring\<lparr>wait_events := Failed eagain ## sconst (Posted recv_done)\<rparr>)"
    by blast
  also have "\<dots> = Some (Inr (- 11, interrupted_ring\<lparr>wait_events := sconst (Posted recv_done)\<rparr>))"
    by (subst receive_into.simps)
       (simp add: io_uring_wait_cqe_def interrupted_ring_def example_ring_def neg_errno_eagain
          EINTR_def word_sless_alt)
  finally have 1: "receive_into interrupted_ring =
      Some (Inr (- 11, interrupted_ring\<lparr>wait_events := sconst (Posted recv_done)\<rparr>))" .
  have "wait_events example_ring = sconst (Failed eintr)"
    by (simp add: example_ring_def)
  with t' have 2: "receive_into example_ring = None" by blast
  from c neg_errno_eintr 1 2 show ?thesis by simp
qed

subsection \<open>Marking the completion seen\<close>

text \<open>C1: every call that dequeues a completion should mark it seen exactly once,
  whatever the decode branch. The code does so on the success branch only: the two
  error branches return before \<^verbatim>\<open>io_uring_cqe_seen\<close>. On a completion that failed with
  \<^verbatim>\<open>-EAGAIN\<close> the call returns -11 and leaves the ring as it found it, the completion
  still at the head of the queue and the head counter not advanced; on a no-op's
  completion it returns -1 and leaves the ring as it found it; on a receive of 10 bytes
  it returns 10, the completion is gone and the head counter is one further.\<close>

theorem receive_into_error_branches_skip_seen:
  "receive_into failed_ring = Some (Inr (- 11, failed_ring))
   \<and> receive_into nop_ring = Some (Inr (- 1, nop_ring))
   \<and> receive_into done_ring = Some (Inr (10, done_ring\<lparr>cq := [], cq_head := cq_head done_ring + 1\<rparr>))"
proof -
  have "io_uring_wait_cqe failed_ring = (0, Some recv_failed, failed_ring)"
    by (simp add: failed_ring_def wait_ready)
  from receive_into_handed [OF this]
  have 1: "receive_into failed_ring = Some (Inr (- 11, failed_ring))"
    by (simp add: recv_failed_def word_sless_alt)
  have "io_uring_wait_cqe nop_ring = (0, Some nop_done, nop_ring)"
    by (simp add: nop_ring_def wait_ready)
  from receive_into_handed [OF this]
  have 2: "receive_into nop_ring = Some (Inr (- 1, nop_ring))"
    by (simp add: nop_done_def io_uring_cqe_get_data_def NULL_def)
  have "io_uring_wait_cqe done_ring = (0, Some recv_done, done_ring)"
    by (simp add: done_ring_def wait_ready)
  from receive_into_handed [OF this]
  have 3: "receive_into done_ring =
      Some (Inr (10, done_ring\<lparr>cq := [], cq_head := cq_head done_ring + 1\<rparr>))"
    by (simp add: recv_done_def io_uring_cqe_get_data_def NULL_def word_sless_alt
        io_uring_cqe_seen_def done_ring_def)
  from 1 2 3 show ?thesis by simp
qed

subsection \<open>A completion with no handle\<close>

lemma receive_into_ready:
  "cq ring = c # cs \<Longrightarrow>
   receive_into ring =
     Some (Inr (if res c <s 0 then (res c, ring)
                else if io_uring_cqe_get_data c = NULL then (- 1, ring)
                else (res c, io_uring_cqe_seen ring c)))"
  by (rule receive_into_handed [OF wait_ready])

lemma receive_into_posted:
  assumes "cq ring = []" and "neg_errno e = - EINTR"
    and "wait_events ring = replicate k (Failed e) @- Posted c ## s"
  shows "receive_into ring =
     Some (Inr (if res c <s 0 then (res c, ring\<lparr>cq := [c], wait_events := s\<rparr>)
                else if io_uring_cqe_get_data c = NULL then (- 1, ring\<lparr>cq := [c], wait_events := s\<rparr>)
                else (res c, ring\<lparr>cq := [], cq_head := cq_head ring + 1, wait_events := s\<rparr>)))"
proof -
  let ?ring0 = "ring\<lparr>wait_events := Posted c ## s\<rparr>"
  from assms have "receive_into ring = receive_into ?ring0"
    by (rule receive_into_skips)
  moreover from assms(1) have "io_uring_wait_cqe ?ring0 =
      (0, Some c, ?ring0\<lparr>cq := [c], wait_events := stl (wait_events ?ring0)\<rparr>)"
    by (intro wait_posted) simp_all
  from receive_into_handed [OF this] have "receive_into ?ring0 =
     Some (Inr (if res c <s 0 then (res c, ring\<lparr>cq := [c], wait_events := s\<rparr>)
                else if io_uring_cqe_get_data c = NULL then (- 1, ring\<lparr>cq := [c], wait_events := s\<rparr>)
                else (res c, ring\<lparr>cq := [], cq_head := cq_head ring + 1, wait_events := s\<rparr>)))"
    by (simp add: io_uring_cqe_seen_def)
  ultimately show ?thesis by simp
qed

lemma receive_into_wait_failed:
  assumes "cq ring = []" and "neg_errno e = - EINTR"
    and "wait_events ring = replicate k (Failed e) @- Failed e' ## s" and "e' \<noteq> e"
  shows "receive_into ring = Some (Inr (neg_errno e', ring\<lparr>wait_events := s\<rparr>))"
proof -
  let ?ring0 = "ring\<lparr>wait_events := Failed e' ## s\<rparr>"
  from assms(1-3) have "receive_into ring = receive_into ?ring0"
    by (rule receive_into_skips)
  moreover have "neg_errno e' \<noteq> - EINTR"
  proof
    assume "neg_errno e' = - EINTR"
    with assms(2) have "e' = e" by (intro neg_errno_inject) simp
    with assms(4) show False by simp
  qed
  with assms(1) have "receive_into ?ring0 =
      Some (Inr (neg_errno e', ?ring0\<lparr>wait_events := stl (wait_events ?ring0)\<rparr>))"
    by (intro receive_into_failed) simp_all
  ultimately show ?thesis by simp
qed

text \<open>C2, as amended: for every completion whose correlation handle is null, the call
  that is handed it returns a negative value, so never a byte count: -1 when the
  completion's result is not negative, and the completion's own result when it is. This
  holds when the completion lies ready at the head of the completion queue, and when the
  kernel posts it after any number of interrupted waits. The value -1 is not kept for
  this case: every completion whose result is -1 returns it too, whatever its handle.\<close>

theorem receive_into_no_payload:
  assumes "io_uring_cqe_get_data c = NULL" and "neg_errno e = - EINTR"
  shows "(\<forall>cs. cq ring = c # cs \<longrightarrow>
            (\<exists>ring'. receive_into ring = Some (Inr (if res c <s 0 then res c else - 1, ring'))))
       \<and> (\<forall>k s. cq ring = [] \<and> wait_events ring = replicate k (Failed e) @- Posted c ## s \<longrightarrow>
            (\<exists>ring'. receive_into ring = Some (Inr (if res c <s 0 then res c else - 1, ring'))))
       \<and> (if res c <s 0 then res c else - 1) <s 0
       \<and> (\<forall>ring2 ret2 c2 ring3. io_uring_wait_cqe ring2 = (ret2, Some c2, ring3) \<and> res c2 = - 1 \<longrightarrow>
            (\<exists>ring'. receive_into ring2 = Some (Inr (- 1, ring'))))"
proof (intro conjI allI impI)
  fix cs
  assume "cq ring = c # cs"
  from receive_into_ready [OF this] assms(1)
  show "\<exists>ring'. receive_into ring = Some (Inr (if res c <s 0 then res c else - 1, ring'))"
    by simp
next
  fix k s
  assume "cq ring = [] \<and> wait_events ring = replicate k (Failed e) @- Posted c ## s"
  then have "cq ring = []" "wait_events ring = replicate k (Failed e) @- Posted c ## s"
    by simp_all
  from receive_into_posted [OF this(1) assms(2) this(2)] assms(1)
  show "\<exists>ring'. receive_into ring = Some (Inr (if res c <s 0 then res c else - 1, ring'))"
    by simp
next
  show "(if res c <s 0 then res c else - 1) <s 0"
    by (simp add: word_sless_alt)
next
  fix ring2 ret2 c2 ring3
  assume a: "io_uring_wait_cqe ring2 = (ret2, Some c2, ring3) \<and> res c2 = - 1"
  then have "io_uring_wait_cqe ring2 = (ret2, Some c2, ring3)" by simp
  from receive_into_handed [OF this] a
  show "\<exists>ring'. receive_into ring2 = Some (Inr (- 1, ring'))"
    by (simp add: word_sless_alt)
qed

text \<open>The completion of a no-op, ready in the queue and posted after one interrupted
  wait: the call returns -1.\<close>

theorem receive_into_no_payload_witness:
  "io_uring_cqe_get_data nop_done = NULL \<and> neg_errno eintr = - EINTR
   \<and> cq nop_ring = [nop_done]
   \<and> (\<exists>ring'. receive_into nop_ring = Some (Inr (- 1, ring')))
   \<and> cq interrupted_nop_ring = []
   \<and> wait_events interrupted_nop_ring =
       replicate 1 (Failed eintr) @- Posted nop_done ## sconst (Failed eintr)
   \<and> (\<exists>ring'. receive_into interrupted_nop_ring = Some (Inr (- 1, ring')))"
proof -
  have n: "io_uring_cqe_get_data nop_done = NULL"
    by (simp add: nop_done_def io_uring_cqe_get_data_def NULL_def)
  have q: "cq nop_ring = [nop_done]"
    by (simp add: nop_ring_def)
  have i: "cq interrupted_nop_ring = []"
    "wait_events interrupted_nop_ring =
       replicate 1 (Failed eintr) @- Posted nop_done ## sconst (Failed eintr)"
    by (simp_all add: interrupted_nop_ring_def example_ring_def)
  have r: "\<not> res nop_done <s 0" by (simp add: nop_done_def)
  note t = receive_into_no_payload [OF n neg_errno_eintr]
  from t [of nop_ring] q r
  have 1: "\<exists>ring'. receive_into nop_ring = Some (Inr (- 1, ring'))" by simp
  from t [of interrupted_nop_ring, THEN conjunct2, THEN conjunct1, rule_format,
      OF conjI [OF i]] r
  have 2: "\<exists>ring'. receive_into interrupted_nop_ring = Some (Inr (- 1, ring'))" by simp
  from n neg_errno_eintr q i 1 2 show ?thesis by simp
qed

text \<open>C2 as stated fails: the value -1 reported for a no-op's completion is also what a
  receive that failed with \<^verbatim>\<open>-EPERM\<close> reports, with a handle that is not null. The
  return value does not tell the two apart.\<close>

theorem no_payload_conflated_counterexample:
  "io_uring_cqe_get_data nop_done = NULL \<and> io_uring_cqe_get_data recv_eperm \<noteq> NULL
   \<and> receive_into nop_ring = Some (Inr (- 1, nop_ring))
   \<and> receive_into eperm_ring = Some (Inr (- 1, eperm_ring))"
proof -
  have "io_uring_wait_cqe nop_ring = (0, Some nop_done, nop_ring)"
    by (simp add: nop_ring_def wait_ready)
  from receive_into_handed [OF this]
  have 1: "receive_into nop_ring = Some (Inr (- 1, nop_ring))"
    by (simp add: nop_done_def io_uring_cqe_get_data_def NULL_def)
  have "io_uring_wait_cqe eperm_ring = (0, Some recv_eperm, eperm_ring)"
    by (simp add: eperm_ring_def wait_ready)
  from receive_into_handed [OF this]
  have 2: "receive_into eperm_ring = Some (Inr (- 1, eperm_ring))"
    by (simp add: recv_eperm_def word_sless_alt)
  from 1 2 show ?thesis
    by (simp add: nop_done_def recv_eperm_def io_uring_cqe_get_data_def NULL_def)
qed

subsection \<open>The value returned\<close>

text \<open>C5, as amended: the value a call returns is the one the first wait that is not
  interrupted decides. Let \<open>e\<close> be the error number of an interruption, and let a
  completion report its own result when that is negative, -1 when its result is not
  negative and its handle is null, and its result otherwise. Then
  \<^item> a call that finds a completion at the head of the completion queue returns what
    that completion reports; when the result is not negative and the handle is not null
    the call returns that result and leaves the ring with the completion marked seen;
  \<^item> a call on an empty completion queue whose waits are interrupted any number of
    times before one is not returns the code of that wait when it failed, unchanged, and
    what the completion reports when the wait was handed one;
  \<^item> every call that returns is one of these, with the value they give;
  \<^item> what a completion reports is negative, or it is the completion's result, not
    negative, of a completion whose handle is not null;
  \<^item> the code of a failed wait is negative.\<close>

theorem receive_into_result:
  assumes "neg_errno e = - EINTR"
  shows
   "(let reported = (\<lambda>c. if res c <s 0 then res c
                         else if io_uring_cqe_get_data c = NULL then - 1 else res c) in
     (\<forall>c cs. cq ring = c # cs \<longrightarrow>
        (\<exists>ring'. receive_into ring = Some (Inr (reported c, ring'))) \<and>
        (0 \<le>s res c \<and> io_uring_cqe_get_data c \<noteq> NULL \<longrightarrow>
           receive_into ring = Some (Inr (res c, io_uring_cqe_seen ring c))))
     \<and> (\<forall>k ev s. cq ring = [] \<and> wait_events ring = replicate k (Failed e) @- ev ## s \<and>
            ev \<noteq> Failed e \<longrightarrow>
          (\<exists>ring'. receive_into ring =
             Some (Inr (case ev of Failed e' \<Rightarrow> neg_errno e' | Posted c \<Rightarrow> reported c, ring'))))
     \<and> (\<forall>out. receive_into ring = Some out \<longrightarrow>
          (\<exists>r ring'. out = Inr (r, ring') \<and>
             ((\<exists>c cs. cq ring = c # cs \<and> r = reported c) \<or>
              (cq ring = [] \<and>
               (\<exists>k ev. wait_events ring = replicate k (Failed e) @- ev ## wait_events ring' \<and>
                  ev \<noteq> Failed e \<and>
                  r = (case ev of Failed e' \<Rightarrow> neg_errno e' | Posted c \<Rightarrow> reported c))))))
     \<and> (\<forall>c. reported c <s 0 \<or>
            (0 \<le>s reported c \<and> reported c = res c \<and> io_uring_cqe_get_data c \<noteq> NULL))
     \<and> (\<forall>e'. neg_errno e' <s 0))"
proof -
  let ?reported = "\<lambda>c. if res c <s 0 then res c
                         else if io_uring_cqe_get_data c = NULL then - 1 else res c"
  have ready: "(\<exists>ring'. receive_into ring = Some (Inr (?reported c, ring'))) \<and>
        (0 \<le>s res c \<and> io_uring_cqe_get_data c \<noteq> NULL \<longrightarrow>
           receive_into ring = Some (Inr (res c, io_uring_cqe_seen ring c)))"
    if "cq ring = c # cs" for c cs
    using receive_into_ready [OF that] by (simp add: signed.not_less [symmetric])
  have late: "\<exists>ring'. receive_into ring =
             Some (Inr (case ev of Failed e' \<Rightarrow> neg_errno e' | Posted c \<Rightarrow> ?reported c, ring'))"
    if "cq ring = [] \<and> wait_events ring = replicate k (Failed e) @- ev ## s \<and> ev \<noteq> Failed e"
    for k ev s
  proof (cases ev)
    case (Failed e')
    with that have "cq ring = []" "wait_events ring = replicate k (Failed e) @- Failed e' ## s"
      "e' \<noteq> e" by auto
    from receive_into_wait_failed [OF this(1) assms this(2,3)] Failed show ?thesis by simp
  next
    case (Posted c)
    with that have "cq ring = []" "wait_events ring = replicate k (Failed e) @- Posted c ## s"
      by auto
    from receive_into_posted [OF this(1) assms this(2)] Posted show ?thesis by simp
  qed
  have only: "\<exists>r ring'. out = Inr (r, ring') \<and>
             ((\<exists>c cs. cq ring = c # cs \<and> r = ?reported c) \<or>
              (cq ring = [] \<and>
               (\<exists>k ev. wait_events ring = replicate k (Failed e) @- ev ## wait_events ring' \<and>
                  ev \<noteq> Failed e \<and>
                  r = (case ev of Failed e' \<Rightarrow> neg_errno e' | Posted c \<Rightarrow> ?reported c))))"
    if out: "receive_into ring = Some out" for out
  proof (cases "cq ring")
    case (Cons c cs)
    from receive_into_ready [OF this] out Cons show ?thesis by auto
  next
    case Nil
    from receive_into_returns_after_interruptions [OF assms out Nil]
    obtain r ring' k ev where o: "out = Inr (r, ring')"
      and w: "wait_events ring = replicate k (Failed e) @- ev ## wait_events ring'"
      and ev: "ev \<noteq> Failed e" by blast
    from late [of k ev "wait_events ring'"] Nil w ev out o
    have "r = (case ev of Failed e' \<Rightarrow> neg_errno e' | Posted c \<Rightarrow> ?reported c)"
      by auto
    with o Nil w ev show ?thesis by blast
  qed
  have sign: "?reported c <s 0 \<or>
            (0 \<le>s ?reported c \<and> ?reported c = res c \<and> io_uring_cqe_get_data c \<noteq> NULL)" for c
    by (auto simp: word_sless_alt word_sle_eq)
  from ready late only sign neg_errno_negative show ?thesis
    unfolding Let_def by blast
qed

text \<open>A receive of 10 bytes ready in the queue returns 10 and is marked seen; two
  interrupted waits followed by a wait that fails with \<^verbatim>\<open>-EAGAIN\<close> return -11.\<close>

theorem receive_into_result_witness:
  "neg_errno eintr = - EINTR
   \<and> cq done_ring = [recv_done] \<and> 0 \<le>s res recv_done \<and> io_uring_cqe_get_data recv_done \<noteq> NULL
   \<and> receive_into done_ring = Some (Inr (10, io_uring_cqe_seen done_ring recv_done))
   \<and> cq interrupted_ring = []
   \<and> wait_events interrupted_ring =
       replicate 2 (Failed eintr) @- Failed eagain ## sconst (Posted recv_done)
   \<and> Failed eagain \<noteq> Failed eintr
   \<and> (\<exists>ring'. receive_into interrupted_ring = Some (Inr (- 11, ring')))"
proof -
  note t = receive_into_result [OF neg_errno_eintr, unfolded Let_def]
  have q: "cq done_ring = [recv_done]" by (simp add: done_ring_def)
  have p: "0 \<le>s res recv_done \<and> io_uring_cqe_get_data recv_done \<noteq> NULL"
    by (simp add: recv_done_def io_uring_cqe_get_data_def NULL_def word_sle_eq)
  from t [of done_ring, THEN conjunct1, rule_format, OF q, THEN conjunct2, rule_format, OF p]
  have 1: "receive_into done_ring = Some (Inr (10, io_uring_cqe_seen done_ring recv_done))"
    by (simp add: recv_done_def)
  have i: "cq interrupted_ring = []"
    "wait_events interrupted_ring =
       replicate 2 (Failed eintr) @- Failed eagain ## sconst (Posted recv_done)"
    by (simp_all add: interrupted_ring_def example_ring_def numeral_2_eq_2)
  have d: "Failed eagain \<noteq> Failed eintr"
  proof
    assume "Failed eagain = Failed eintr"
    then have "neg_errno eagain = neg_errno eintr" by simp
    then show False by (simp add: neg_errno_eagain neg_errno_eintr EINTR_def)
  qed
  from t [of interrupted_ring, THEN conjunct2, THEN conjunct1, rule_format,
      OF conjI [OF i(1) conjI [OF i(2) d]]]
  have 2: "\<exists>ring'. receive_into interrupted_ring = Some (Inr (- 11, ring'))"
    by (simp add: neg_errno_eagain)
  from neg_errno_eintr q p 1 i d 2 show ?thesis by simp
qed

text \<open>C5 as stated fails: the wait succeeds and hands out a no-op's completion, whose
  result is 0, and the call returns -1: a negative value that is neither the code of a
  failed wait nor the result of the completion.\<close>

theorem receive_into_result_counterexample:
  "io_uring_wait_cqe nop_ring = (0, Some nop_done, nop_ring) \<and> res nop_done = 0
   \<and> receive_into nop_ring = Some (Inr (- 1, nop_ring))
   \<and> (- 1 :: 32 word) \<noteq> res nop_done"
proof -
  have w: "io_uring_wait_cqe nop_ring = (0, Some nop_done, nop_ring)"
    by (simp add: nop_ring_def wait_ready)
  from receive_into_handed [OF w]
  have "receive_into nop_ring = Some (Inr (- 1, nop_ring))"
    by (simp add: nop_done_def io_uring_cqe_get_data_def NULL_def)
  with w show ?thesis by (simp add: nop_done_def)
qed

subsection \<open>Loads and stores\<close>

lemma length_addrs [simp]: "length (addrs p n) = n"
  by (induction n arbitrary: p) simp_all

lemma length_le_bytes [simp]: "length (le_bytes n w) = n"
  by (induction n arbitrary: w) simp_all

lemma length_encode [simp]: "length (encode host n w) = n"
  by (cases host) (simp_all add: encode_def)

lemma nth_addrs: "i < n \<Longrightarrow> addrs p n ! i = p + of_nat i"
proof (induction n arbitrary: p i)
  case 0
  then show ?case by simp
next
  case (Suc n)
  then show ?case by (cases i) (simp_all add: add.assoc)
qed

lemma set_addrs: "set (addrs p n) = (\<lambda>i. p + of_nat i) ` {..<n}"
proof -
  have "set (addrs p n) = {addrs p n ! i | i. i < n}"
    by (simp add: set_conv_nth)
  also have "\<dots> = {p + of_nat i | i. i < n}"
    by (metis (no_types, opaque_lifting) nth_addrs)
  also have "\<dots> = (\<lambda>i. p + of_nat i) ` {..<n}"
    by auto
  finally show ?thesis .
qed

lemma of_nat_64_inj: "i < 2 ^ 64 \<Longrightarrow> j < 2 ^ 64 \<Longrightarrow> (of_nat i :: 64 word) = of_nat j \<Longrightarrow> i = j"
  by (simp add: word_of_nat_eq_iff take_bit_nat_eq_self)

lemma distinct_addrs: "n \<le> 2 ^ 64 \<Longrightarrow> distinct (addrs p n)"
proof -
  assume n: "n \<le> 2 ^ 64"
  have "i = j" if "i < n" "j < n" "addrs p n ! i = addrs p n ! j" for i j
  proof -
    from that have "(of_nat i :: 64 word) = of_nat j" by (simp add: nth_addrs)
    with that n show ?thesis by (intro of_nat_64_inj) simp_all
  qed
  then show ?thesis by (simp add: distinct_conv_nth) blast
qed

lemma offset_disjoint:
  assumes "k1 + n1 \<le> k2 \<or> k2 + n2 \<le> k1" and "k1 + n1 \<le> 2 ^ 64" and "k2 + n2 \<le> 2 ^ 64"
  shows "set (addrs (field p k1) n1) \<inter> set (addrs (field p k2) n2) = {}"
proof (rule ccontr)
  assume "set (addrs (field p k1) n1) \<inter> set (addrs (field p k2) n2) \<noteq> {}"
  then obtain i j where ij: "i < n1" "j < n2" "p + of_nat k1 + of_nat i = p + of_nat k2 + of_nat j"
    by (auto simp: set_addrs field_def)
  then have "(of_nat (k1 + i) :: 64 word) = of_nat (k2 + j)" by (simp add: add.assoc)
  with ij assms have "k1 + i = k2 + j" by (intro of_nat_64_inj) simp_all
  with ij assms show False by auto
qed

lemma offset_subset:
  assumes "k + n \<le> m"
  shows "set (addrs (field p k) n) \<subseteq> set (addrs p m)"
proof
  fix a assume "a \<in> set (addrs (field p k) n)"
  then obtain i where "i < n" "a = p + of_nat k + of_nat i" by (auto simp: set_addrs field_def)
  with assms have "k + i < m" "a = p + of_nat (k + i)" by (simp_all add: add.assoc)
  then show "a \<in> set (addrs p m)" unfolding set_addrs by blast
qed

lemma separate_iff: "separate p n q m \<longleftrightarrow> set (addrs p n) \<inter> set (addrs q m) = {}"
  by (auto simp: separate_def list_all_iff)

lemma separate_sym: "separate p n q m \<Longrightarrow> separate q m p n"
  by (auto simp: separate_iff)

lemma separate_fields:
  "separate p N q M \<Longrightarrow> k + n \<le> N \<Longrightarrow> l + m \<le> M \<Longrightarrow>
   set (addrs (field p k) n) \<inter> set (addrs (field q l) m) = {}"
  using offset_subset [of k n N p] offset_subset [of l m M q]
  by (auto simp: separate_iff)

lemma separate_unat:
  assumes "unat p + n \<le> unat q \<or> unat q + m \<le> unat p"
    and "unat p + n \<le> 2 ^ 64" and "unat q + m \<le> 2 ^ 64"
  shows "separate p n q m"
  using offset_disjoint [OF assms, of 0] by (simp add: separate_iff field_def)

lemma mapped_iff: "mapped mem p n \<longleftrightarrow> (\<forall>a \<in> set (addrs p n). mem a \<noteq> None)"
  by (simp add: mapped_def list_all_iff)

lemma store_bytes_eq:
  "store_bytes mem p bs = (if mapped mem p (length bs) then Some (place p bs mem) else None)"
proof (induction bs arbitrary: mem p)
  case Nil
  show ?case by (simp add: mapped_def place_def)
next
  case (Cons b bs)
  have "mapped (mem(p \<mapsto> b)) (p + 1) (length bs) = mapped mem (p + 1) (length bs)"
    if "mem p \<noteq> None"
    using that by (auto simp: mapped_iff)
  with Cons show ?case
    by (auto simp: mapped_def place_def split: option.splits)
qed

lemma load_bytes_eq:
  "load_bytes mem p n =
     (if mapped mem p n then Some (map (\<lambda>a. the (mem a)) (addrs p n)) else None)"
  by (induction n arbitrary: p) (auto simp: mapped_def split: option.splits)

lemma load_bytes_mapped: "load_bytes mem p n \<noteq> None \<longleftrightarrow> mapped mem p n"
  by (simp add: load_bytes_eq)

lemma load_bytes_cong:
  "(\<And>a. a \<in> set (addrs p n) \<Longrightarrow> mem' a = mem a) \<Longrightarrow> load_bytes mem' p n = load_bytes mem p n"
  by (simp add: load_bytes_eq mapped_def list_all_iff cong: map_cong)

lemma upds_nth:
  "distinct xs \<Longrightarrow> length xs = length ys \<Longrightarrow> i < length xs \<Longrightarrow>
   (m(xs [\<mapsto>] ys)) (xs ! i) = Some (ys ! i)"
proof (induction xs arbitrary: ys m i)
  case Nil
  then show ?case by simp
next
  case (Cons a xs)
  then obtain b ys' where ys: "ys = b # ys'" by (cases ys) auto
  show ?case
  proof (cases i)
    case 0
    with Cons.prems ys show ?thesis by (simp del: map_upds_twist)
  next
    case (Suc j)
    with Cons.prems ys have "((m(a \<mapsto> b))(xs [\<mapsto>] ys')) (xs ! j) = Some (ys' ! j)"
      by (intro Cons.IH) simp_all
    with Suc ys show ?thesis by (simp del: map_upds_twist)
  qed
qed

lemma place_other: "a \<notin> set (addrs p (length bs)) \<Longrightarrow> place p bs mem a = mem a"
  by (simp add: place_def)

lemma place_nth:
  "length bs \<le> 2 ^ 64 \<Longrightarrow> i < length bs \<Longrightarrow> place p bs mem (p + of_nat i) = Some (bs ! i)"
  using upds_nth [of "addrs p (length bs)" bs i mem]
  by (simp add: place_def distinct_addrs nth_addrs)

lemma place_mapped: "mem a \<noteq> None \<Longrightarrow> place p bs mem a \<noteq> None"
proof -
  assume "mem a \<noteq> None"
  then have "a \<in> dom mem" by (simp add: domIff)
  then have "a \<in> dom (place p bs mem)" by (simp add: place_def)
  then show ?thesis by (simp add: domIff)
qed

lemma mapped_place: "mapped mem q n \<Longrightarrow> mapped (place p bs mem) q n"
  by (simp add: mapped_iff place_mapped)

lemma load_place_other:
  assumes "set (addrs q n) \<inter> set (addrs p (length bs)) = {}"
  shows "load_bytes (place p bs mem) q n = load_bytes mem q n"
proof (rule load_bytes_cong)
  fix a assume "a \<in> set (addrs q n)"
  with assms have "a \<notin> set (addrs p (length bs))" by auto
  then show "place p bs mem a = mem a" by (rule place_other)
qed

lemma load_place_sub:
  assumes "length bs \<le> 2 ^ 64" and "ofs + n \<le> length bs"
  shows "load_bytes (place p bs mem) (field p ofs) n = Some (take n (drop ofs bs))"
proof -
  let ?m = "place p bs mem"
  have a: "?m (addrs (field p ofs) n ! i) = Some (bs ! (ofs + i))" if "i < n" for i
  proof -
    from that have "addrs (field p ofs) n ! i = p + of_nat (ofs + i)"
      by (simp add: nth_addrs field_def add.assoc)
    moreover from that assms have "ofs + i < length bs" by simp
    ultimately show ?thesis using assms(1) place_nth [of bs "ofs + i" p mem] by simp
  qed
  have "mapped ?m (field p ofs) n"
    unfolding mapped_def list_all_length using a by simp
  moreover have "map (\<lambda>a. the (?m a)) (addrs (field p ofs) n) = take n (drop ofs bs)"
    using a assms by (intro nth_equalityI) simp_all
  ultimately show ?thesis by (simp add: load_bytes_eq)
qed

lemma le_word_le_bytes: "(le_word (le_bytes n w) :: 'a::len word) = take_bit (8 * n) w"
proof (induction n arbitrary: w)
  case 0
  show ?case by simp
next
  case (Suc n)
  show ?case
    apply (simp add: Suc)
    apply (rule bit_word_eqI)
    apply (auto simp: bit_simps)
    done
qed

lemma decode_encode:
  "LENGTH('a) \<le> 8 * n \<Longrightarrow> decode host (encode host n (w :: 'a::len word)) = w"
  by (cases host) (simp_all add: decode_def encode_def le_word_le_bytes take_bit_word_eq_self)

lemma field_0: "field p 0 = p"
  by (simp add: field_def)

lemma store_field_eq:
  "store_field host obj ofs n w mem =
     (if obj \<noteq> NULL \<and> mapped mem (field obj ofs) n then Inr (stored host obj ofs n w mem)
      else Inl (segfault obj))"
  by (simp add: store_field_def store_bytes_eq stored_def)

lemma mapped_stored: "mapped mem q k \<Longrightarrow> mapped (stored host obj ofs n w mem) q k"
  by (simp add: stored_def mapped_place)

lemma load_stored_same:
  "obj \<noteq> NULL \<Longrightarrow> LENGTH('a) \<le> 8 * n \<Longrightarrow> n \<le> 2 ^ 64 \<Longrightarrow>
   load_field host (stored host obj ofs n (w :: 'a::len word) mem) obj ofs n = Some w"
  using load_place_sub [of "encode host n w" 0 n "field obj ofs" mem]
  by (simp add: load_field_def stored_def decode_encode field_0)

lemma load_stored_other:
  "set (addrs (field p k) m) \<inter> set (addrs (field obj ofs) n) = {} \<Longrightarrow>
   load_field host (stored host' obj ofs n w mem) p k m = load_field host mem p k m"
  by (simp add: load_field_def stored_def load_place_other)

lemma load_stored_same_object:
  "k + m \<le> ofs \<or> ofs + n \<le> k \<Longrightarrow> k + m \<le> 2 ^ 64 \<Longrightarrow> ofs + n \<le> 2 ^ 64 \<Longrightarrow>
   load_field host (stored host' obj ofs n w mem) obj k m = load_field host mem obj k m"
  by (intro load_stored_other offset_disjoint)

lemma load_stored_separate:
  "separate p N q M \<Longrightarrow> k + m \<le> N \<Longrightarrow> ofs + n \<le> M \<Longrightarrow>
   load_field host (stored host' q ofs n w mem) p k m = load_field host mem p k m"
  by (intro load_stored_other separate_fields)

lemma load_stored_separate':
  "separate p N q M \<Longrightarrow> k + m \<le> M \<Longrightarrow> ofs + n \<le> N \<Longrightarrow>
   load_field host (stored host' p ofs n w mem) q k m = load_field host mem q k m"
  by (intro load_stored_other separate_fields [OF separate_sym])


lemma load_field_mapped: "load_field host mem p k m = Some w \<Longrightarrow> mapped mem (field p k) m"
  by (auto simp: load_field_def load_bytes_mapped [symmetric] split: if_splits)

lemma load_field_nonnull: "load_field host mem p k m = Some w \<Longrightarrow> p \<noteq> NULL"
  by (auto simp: load_field_def)

lemma mapped_stored_iff:
  assumes "mapped mem (field obj ofs) n"
  shows "mapped (stored host obj ofs n w mem) q k \<longleftrightarrow> mapped mem q k"
proof -
  from assms have "set (addrs (field obj ofs) n) \<subseteq> dom mem"
    by (auto simp: mapped_iff)
  then have "dom (stored host obj ofs n w mem) = dom mem"
    by (auto simp: stored_def place_def)
  then have "stored host obj ofs n w mem a \<noteq> None \<longleftrightarrow> mem a \<noteq> None" for a
    by (simp only: domIff [symmetric])
  then show ?thesis by (simp add: mapped_iff)
qed

lemma load_field_None_iff:
  "load_field host mem p k m = None \<longleftrightarrow> p = NULL \<or> \<not> mapped mem (field p k) m"
  by (simp add: load_field_def load_bytes_eq)

lemma iovec_at_mapped:
  "iovec_at host mem p \<noteq> None \<longleftrightarrow>
     p \<noteq> NULL \<and> mapped mem (field p 0) 8 \<and> mapped mem (field p 8) 8"
  by (auto simp: iovec_at_def bind_eq_None_conv load_field_None_iff)

lemma msghdr_at_mapped:
  "msghdr_at host mem p \<noteq> None \<longleftrightarrow>
     p \<noteq> NULL \<and> mapped mem (field p 0) 8 \<and> mapped mem (field p 8) 4 \<and> mapped mem (field p 16) 8 \<and>
     mapped mem (field p 24) 8 \<and> mapped mem (field p 32) 8 \<and> mapped mem (field p 40) 8 \<and>
     mapped mem (field p 48) 4"
  by (auto simp: msghdr_at_def bind_eq_None_conv load_field_None_iff)

lemma iovec_at_SomeD:
  "iovec_at host mem p = Some v \<Longrightarrow>
   load_field host mem p 0 8 = Some (iov_base v) \<and> load_field host mem p 8 8 = Some (iov_len v)"
  by (auto simp: iovec_at_def bind_eq_Some_conv)

lemma msghdr_at_SomeD:
  "msghdr_at host mem p = Some h \<Longrightarrow>
   load_field host mem p 0 8 = Some (msg_name h) \<and> load_field host mem p 8 4 = Some (msg_namelen h) \<and>
   load_field host mem p 16 8 = Some (msg_iov h) \<and> load_field host mem p 24 8 = Some (msg_iovlen h) \<and>
   load_field host mem p 32 8 = Some (msg_control h) \<and>
   load_field host mem p 40 8 = Some (msg_controllen h) \<and>
   load_field host mem p 48 4 = Some (msg_flags h)"
  by (auto simp: msghdr_at_def bind_eq_Some_conv)

lemma sockaddr_at_SomeD:
  "sockaddr_at host mem p = Some a \<Longrightarrow>
   load_field host mem p 0 2 = Some (sin_family a) \<and> load_field host mem p 2 2 = Some (sin_port a) \<and>
   load_field host mem p 4 4 = Some (s_addr a)"
  by (auto simp: sockaddr_at_def bind_eq_Some_conv)

subsection \<open>Submitting a receive\<close>

lemma get_sqe_slot:
  "length (sq ring) < sq_entries ring \<Longrightarrow>
   io_uring_get_sqe ring = (Some (length (sq ring)), ring\<lparr>sq := sq ring @ [blank_sqe]\<rparr>)"
  by (simp add: io_uring_get_sqe_def)

lemma get_sqe_full:
  "sq_entries ring \<le> length (sq ring) \<Longrightarrow> io_uring_get_sqe ring = (None, ring)"
  by (simp add: io_uring_get_sqe_def)

lemma populate_and_flush:
  "(case io_uring_get_sqe ring of
      (sqe, ring) \<Rightarrow>
        seq (io_uring_prep_recvmsg sqe sock mhdr 0 ring) (\<lambda>ring.
        seq (io_uring_sqe_set_data sqe mhdr ring) (\<lambda>ring.
        case io_uring_submit ring of
          (_, ring) \<Rightarrow> Inr (0 :: 32 word, ring, mem :: memory)))) =
   (if length (sq ring) < sq_entries ring
    then Inr (0, snd (io_uring_submit (ring\<lparr>sq := sq ring @ [recvmsg_sqe sock mhdr]\<rparr>)), mem)
    else Inl NullDereference)"
  by (simp add: io_uring_get_sqe_def io_uring_prep_recvmsg_def io_uring_sqe_set_data_def
      write_sqe_def seq_def io_uring_prep_rw_def recvmsg_sqe_def split: prod.split)

lemma submit_recvmsg_request_eq:
  "submit_recvmsg_request host sock ring mhdr iov sender buf buflen mem =
     (if \<not> (iov \<noteq> NULL \<and> mapped mem (field iov 0) 8 \<and> mapped mem (field iov 8) 8)
      then Inl (segfault iov)
      else if \<not> (mhdr \<noteq> NULL \<and> mapped mem (field mhdr 16) 8 \<and> mapped mem (field mhdr 24) 8 \<and>
                 mapped mem (field mhdr 0) 8 \<and> mapped mem (field mhdr 8) 4)
      then Inl (segfault mhdr)
      else if length (sq ring) < sq_entries ring
      then Inr (0, snd (io_uring_submit (ring\<lparr>sq := sq ring @ [recvmsg_sqe sock mhdr]\<rparr>)),
                wired host mem mhdr iov sender buf buflen)
      else Inl NullDereference)"
  unfolding submit_recvmsg_request_def populate_and_flush
  by (simp add: store_field_eq seq_def mapped_stored_iff wired_def)

lemma uint_scast_nonneg: "0 \<le>s (n :: 32 word) \<Longrightarrow> uint (scast n :: 64 word) = sint n"
proof -
  assume "0 \<le>s n"
  then have 0: "0 \<le> sint n" by (simp add: word_sle_eq)
  have "sint n < 2 ^ 31" using sint_lt [of n] by simp
  then have 1: "sint n < 2 ^ 64" by (rule less_trans) simp
  have "uint (scast n :: 64 word) = uint (word_of_int (sint n) :: 64 word)"
    by (simp only: scast_eq)
  also have "\<dots> = sint n mod 2 ^ 64" by (simp only: uint_word_of_int) simp
  also have "\<dots> = sint n" using 0 1 by simp
  finally show ?thesis .
qed

lemma submit_accepted:
  "shd (submit_events ring) = Accepted \<Longrightarrow>
   snd (io_uring_submit ring) =
     ring\<lparr>sq := [], submitted := submitted ring @ sq ring, submit_events := stl (submit_events ring)\<rparr>"
  by (simp add: io_uring_submit_def)

lemma submit_rejected:
  "shd (submit_events ring) = Rejected e \<Longrightarrow>
   snd (io_uring_submit ring) = ring\<lparr>submit_events := stl (submit_events ring)\<rparr>"
  by (simp add: io_uring_submit_def)

lemma submit_events_submit:
  "submit_events (snd (io_uring_submit ring)) = stl (submit_events ring)"
  by (cases "shd (submit_events ring)") (simp_all add: io_uring_submit_def)

lemma submit_recvmsg_request_ok:
  assumes "iovec_at host mem iov \<noteq> None" and "msghdr_at host mem mhdr \<noteq> None"
    and "length (sq ring) < sq_entries ring"
  shows "submit_recvmsg_request host sock ring mhdr iov sender buf buflen mem =
     Inr (0, snd (io_uring_submit (ring\<lparr>sq := sq ring @ [recvmsg_sqe sock mhdr]\<rparr>)),
          wired host mem mhdr iov sender buf buflen)"
proof -
  from assms(1) have "iov \<noteq> NULL \<and> mapped mem (field iov 0) 8 \<and> mapped mem (field iov 8) 8"
    by (simp only: iovec_at_mapped simp_thms)
  moreover from assms(2) have "mhdr \<noteq> NULL \<and> mapped mem (field mhdr 0) 8 \<and> mapped mem (field mhdr 8) 4 \<and>
      mapped mem (field mhdr 16) 8 \<and> mapped mem (field mhdr 24) 8"
    by (simp only: msghdr_at_mapped simp_thms)
  ultimately show ?thesis using assms(3) by (simp add: submit_recvmsg_request_eq)
qed

lemma submit_recvmsg_request_no_slot:
  assumes "iovec_at host mem iov \<noteq> None" and "msghdr_at host mem mhdr \<noteq> None"
    and "sq_entries ring \<le> length (sq ring)"
  shows "submit_recvmsg_request host sock ring mhdr iov sender buf buflen mem = Inl NullDereference"
proof -
  from assms(1) have "iov \<noteq> NULL \<and> mapped mem (field iov 0) 8 \<and> mapped mem (field iov 8) 8"
    by (simp only: iovec_at_mapped simp_thms)
  moreover from assms(2) have "mhdr \<noteq> NULL \<and> mapped mem (field mhdr 0) 8 \<and> mapped mem (field mhdr 8) 4 \<and>
      mapped mem (field mhdr 16) 8 \<and> mapped mem (field mhdr 24) 8"
    by (simp only: msghdr_at_mapped simp_thms)
  ultimately show ?thesis using assms(3) by (simp add: submit_recvmsg_request_eq)
qed

text \<open>A call given a null vector or a null header faults at its first assignment through
  that pointer.\<close>

lemma submit_recvmsg_request_null:
  "submit_recvmsg_request host sock ring mhdr NULL sender buf buflen mem = Inl NullDereference"
  "iovec_at host mem iov \<noteq> None \<Longrightarrow>
   submit_recvmsg_request host sock ring NULL iov sender buf buflen mem = Inl NullDereference"
proof -
  show "submit_recvmsg_request host sock ring mhdr NULL sender buf buflen mem = Inl NullDereference"
    by (simp add: submit_recvmsg_request_eq segfault_def)
  assume "iovec_at host mem iov \<noteq> None"
  then have "iov \<noteq> NULL \<and> mapped mem (field iov 0) 8 \<and> mapped mem (field iov 8) 8"
    by (simp only: iovec_at_mapped simp_thms)
  then show "submit_recvmsg_request host sock ring NULL iov sender buf buflen mem =
      Inl NullDereference"
    by (simp add: submit_recvmsg_request_eq segfault_def)
qed

lemma submit_recvmsg_request_Inr:
  assumes "submit_recvmsg_request host sock ring mhdr iov sender buf buflen mem = Inr (r, ring', mem')"
  shows "r = 0 \<and> mem' = wired host mem mhdr iov sender buf buflen \<and>
     ring' = snd (io_uring_submit (ring\<lparr>sq := sq ring @ [recvmsg_sqe sock mhdr]\<rparr>)) \<and>
     length (sq ring) < sq_entries ring"
  using assms by (auto simp: submit_recvmsg_request_eq split: if_splits)

lemma wired_iovec:
  assumes "separate iov 16 mhdr 56" and "iov \<noteq> NULL"
  shows "iovec_at host (wired host mem mhdr iov sender buf buflen) iov =
     Some \<lparr>iov_base = buf, iov_len = scast buflen\<rparr>"
  by (simp add: iovec_at_def wired_def load_stored_separate [OF assms(1)]
      load_stored_same_object load_stored_same [OF assms(2)])

lemma wired_msghdr:
  assumes "separate iov 16 mhdr 56" and "msghdr_at host mem mhdr = Some h"
  shows "msghdr_at host (wired host mem mhdr iov sender buf buflen) mhdr =
     Some (h\<lparr>msg_name := sender, msg_namelen := sizeof_sockaddr_in, msg_iov := iov, msg_iovlen := 1\<rparr>)"
proof -
  note h = msghdr_at_SomeD [OF assms(2)]
  from h have "mhdr \<noteq> NULL" by (auto dest: load_field_nonnull)
  with h show ?thesis
    by (simp add: msghdr_at_def wired_def load_stored_separate' [OF assms(1)]
        load_stored_same_object load_stored_same)
qed


text \<open>C6: when \<open>iov\<close> and \<open>mhdr\<close> point to a vector and a header and a slot is free, the
  call returns 0 and
  \<^item> when the 16 bytes of the vector and the 56 bytes of the header share no address, as
    two parts of one descriptor do, the vector holds the buffer and its capacity,
    \<open>buflen\<close> converted to \<^verbatim>\<open>size_t\<close>, and the header holds the vector, the count of one
    vector, the sender slot and the size of \<^verbatim>\<open>struct sockaddr_in\<close>, its other fields as
    they were;
  \<^item> the converted capacity is the same number when \<open>buflen\<close> is not negative, and the size
    of \<^verbatim>\<open>struct sockaddr_in\<close> is 16;
  \<^item> the queue is flushed: one answer of the kernel is consumed; when the kernel accepts,
    the submissions it holds end with a receive-message entry on the socket, with no
    flags, whose address and correlation handle are \<open>mhdr\<close>; when it rejects, that entry
    stays pending at the end of the queue.\<close>

theorem submit_recvmsg_request_wires_and_submits:
  assumes "iovec_at host mem iov = Some v" and "msghdr_at host mem mhdr = Some h"
    and "length (sq ring) < sq_entries ring"
  shows "\<exists>ring' mem'.
      submit_recvmsg_request host sock ring mhdr iov sender buf buflen mem = Inr (0, ring', mem')
      \<and> (separate iov 16 mhdr 56 \<longrightarrow>
           iovec_at host mem' iov = Some \<lparr>iov_base = buf, iov_len = scast buflen\<rparr> \<and>
           msghdr_at host mem' mhdr =
             Some (h\<lparr>msg_name := sender, msg_namelen := sizeof_sockaddr_in,
                     msg_iov := iov, msg_iovlen := 1\<rparr>))
      \<and> (0 \<le>s buflen \<longrightarrow> uint (scast buflen :: 64 word) = sint buflen)
      \<and> sizeof_sockaddr_in = 16
      \<and> submit_events ring' = stl (submit_events ring)
      \<and> (shd (submit_events ring) = Accepted \<longrightarrow>
           sq ring' = [] \<and>
           submitted ring' = submitted ring @ sq ring @
             [\<lparr>opcode = IORING_OP_RECVMSG, sqe_flags = 0, ioprio = 0, fd = sock, off = 0,
               addr = mhdr, len = 1, sqe_msg_flags = 0, user_data = mhdr\<rparr>])
      \<and> (\<forall>e. shd (submit_events ring) = Rejected e \<longrightarrow>
           submitted ring' = submitted ring \<and>
           sq ring' = sq ring @
             [\<lparr>opcode = IORING_OP_RECVMSG, sqe_flags = 0, ioprio = 0, fd = sock, off = 0,
               addr = mhdr, len = 1, sqe_msg_flags = 0, user_data = mhdr\<rparr>])"
proof -
  let ?ring1 = "ring\<lparr>sq := sq ring @ [recvmsg_sqe sock mhdr]\<rparr>"
  let ?ring' = "snd (io_uring_submit ?ring1)"
  let ?mem' = "wired host mem mhdr iov sender buf buflen"
  have r: "submit_recvmsg_request host sock ring mhdr iov sender buf buflen mem = Inr (0, ?ring', ?mem')"
    using assms by (intro submit_recvmsg_request_ok) simp_all
  have i: "iovec_at host ?mem' iov = Some \<lparr>iov_base = buf, iov_len = scast buflen\<rparr>"
    if "separate iov 16 mhdr 56"
    using that iovec_at_SomeD [OF assms(1)] by (auto intro!: wired_iovec dest: load_field_nonnull)
  have m: "msghdr_at host ?mem' mhdr =
      Some (h\<lparr>msg_name := sender, msg_namelen := sizeof_sockaddr_in, msg_iov := iov, msg_iovlen := 1\<rparr>)"
    if "separate iov 16 mhdr 56"
    using that assms(2) by (rule wired_msghdr)
  have e: "submit_events ?ring' = stl (submit_events ring)"
    by (simp add: submit_events_submit)
  have a: "sq ?ring' = [] \<and> submitted ?ring' = submitted ring @ sq ring @
             [\<lparr>opcode = IORING_OP_RECVMSG, sqe_flags = 0, ioprio = 0, fd = sock, off = 0,
               addr = mhdr, len = 1, sqe_msg_flags = 0, user_data = mhdr\<rparr>]"
    if "shd (submit_events ring) = Accepted"
    using that by (simp add: submit_accepted recvmsg_sqe_def)
  have j: "submitted ?ring' = submitted ring \<and> sq ?ring' = sq ring @
             [\<lparr>opcode = IORING_OP_RECVMSG, sqe_flags = 0, ioprio = 0, fd = sock, off = 0,
               addr = mhdr, len = 1, sqe_msg_flags = 0, user_data = mhdr\<rparr>]"
    if "shd (submit_events ring) = Rejected e" for e
    using that by (simp add: submit_rejected [of _ e] recvmsg_sqe_def)
  from r i m e a j show ?thesis
    by (intro exI [of _ ?ring'] exI [of _ ?mem'])
       (simp add: uint_scast_nonneg sizeof_sockaddr_in_def)
qed

lemma load_field_place_sub:
  "p \<noteq> NULL \<Longrightarrow> length bs \<le> 2 ^ 64 \<Longrightarrow> k + n \<le> length bs \<Longrightarrow>
   load_field host (place p bs mem) p k n = Some (decode host (take n (drop k bs)))"
  by (simp add: load_field_def load_place_sub)

lemma load_field_place_other:
  assumes "separate p N q M" and "length bs = M" and "k + n \<le> N"
  shows "load_field host (place q bs mem) p k n = load_field host mem p k n"
proof -
  from assms offset_subset [of k n N p]
  have "set (addrs (field p k) n) \<inter> set (addrs q (length bs)) = {}"
    by (auto simp: separate_iff)
  then show ?thesis by (simp add: load_field_def load_place_other)
qed

lemma example_separate:
  "separate 0x2000 16 0x1000 56" "separate 0x3000 16 0x1000 56" "separate 0x3000 16 0x2000 16"
  "separate 0x4000 64 0x1000 56" "separate 0x4000 64 0x2000 16" "separate 0x4000 64 0x3000 16"
  by (rule separate_unat; simp)+

lemma le_word_zeros: "le_word (replicate n 0) = 0"
  by (induction n) simp_all

lemma example_iovec:
  "iovec_at LittleEndian example_memory 0x2000 = Some \<lparr>iov_base = 0, iov_len = 0\<rparr>"
  by (simp add: iovec_at_def example_memory_def
      load_field_place_other [OF example_separate(1)]
      load_field_place_sub decode_def le_word_zeros NULL_def)

lemma example_msghdr:
  "msghdr_at LittleEndian example_memory 0x1000 =
     Some \<lparr>msg_name = 0, msg_namelen = 0, msg_iov = 0, msg_iovlen = 0, msg_control = 0x5000,
           msg_controllen = 32, msg_flags = 0\<rparr>"
  by (simp add: msghdr_at_def example_memory_def load_field_place_sub decode_def NULL_def)

lemma example_sockaddr:
  "sockaddr_at LittleEndian example_memory 0x3000 =
     Some \<lparr>sin_family = 2, sin_port = 0x3930, s_addr = 0x0100007f\<rparr>"
  by (simp add: sockaddr_at_def example_memory_def
      load_field_place_other [OF example_separate(2)]
      load_field_place_other [OF example_separate(3)]
      load_field_place_sub decode_def NULL_def)

lemma example_valid:
  "iovec_at LittleEndian example_memory 0x2000 \<noteq> None"
  "msghdr_at LittleEndian example_memory 0x1000 \<noteq> None"
  "length (sq example_ring) < sq_entries example_ring"
  "shd (submit_events example_ring) = Accepted"
  by (simp_all add: example_iovec example_msghdr example_ring_def)


lemma nop_on_busy_ring: "submit_nop_request busy_ring = Inr jammed_ring"
  by (simp add: submit_nop_request_def io_uring_get_sqe_def busy_ring_def example_ring_def
      io_uring_prep_nop_def write_sqe_def seq_def io_uring_prep_rw_def io_uring_submit_def
      jammed_ring_def NULL_def)

lemma jammed_full: "sq_entries jammed_ring \<le> length (sq jammed_ring)"
  by (simp add: jammed_ring_def busy_ring_def example_ring_def)

text \<open>A receive into the 64 bytes at \<open>0x4000\<close>, with the header at \<open>0x1000\<close>, the vector
  at \<open>0x2000\<close> and the sender slot at \<open>0x3000\<close>, on a little-endian host.\<close>

theorem submit_recvmsg_request_wires_and_submits_witness:
  "iovec_at LittleEndian example_memory 0x2000 = Some \<lparr>iov_base = 0, iov_len = 0\<rparr>
   \<and> msghdr_at LittleEndian example_memory 0x1000 =
       Some \<lparr>msg_name = 0, msg_namelen = 0, msg_iov = 0, msg_iovlen = 0, msg_control = 0x5000,
             msg_controllen = 32, msg_flags = 0\<rparr>
   \<and> separate 0x2000 16 0x1000 56
   \<and> length (sq example_ring) < sq_entries example_ring
   \<and> (\<exists>ring' mem'.
        submit_recvmsg_request LittleEndian 3 example_ring 0x1000 0x2000 0x3000 0x4000 64
          example_memory = Inr (0, ring', mem')
        \<and> iovec_at LittleEndian mem' 0x2000 = Some \<lparr>iov_base = 0x4000, iov_len = 64\<rparr>
        \<and> msghdr_at LittleEndian mem' 0x1000 =
            Some \<lparr>msg_name = 0x3000, msg_namelen = 16, msg_iov = 0x2000, msg_iovlen = 1,
                  msg_control = 0x5000, msg_controllen = 32, msg_flags = 0\<rparr>
        \<and> sq ring' = []
        \<and> submitted ring' =
            [\<lparr>opcode = IORING_OP_RECVMSG, sqe_flags = 0, ioprio = 0, fd = 3, off = 0,
              addr = 0x1000, len = 1, sqe_msg_flags = 0, user_data = 0x1000\<rparr>])"
proof -
  from submit_recvmsg_request_wires_and_submits [OF example_iovec example_msghdr
      example_valid(3), where sock = 3 and sender = "0x3000"
      and buf = "0x4000" and buflen = 64]
  obtain ring' mem' where
    "submit_recvmsg_request LittleEndian 3 example_ring 0x1000 0x2000 0x3000 0x4000 64
       example_memory = Inr (0, ring', mem')"
    "separate 0x2000 16 0x1000 56 \<longrightarrow>
     iovec_at LittleEndian mem' 0x2000 =
       Some \<lparr>iov_base = 0x4000, iov_len = scast (64 :: 32 word)\<rparr> \<and>
     msghdr_at LittleEndian mem' 0x1000 =
       Some (\<lparr>msg_name = 0, msg_namelen = 0, msg_iov = 0, msg_iovlen = 0, msg_control = 0x5000,
             msg_controllen = 32, msg_flags = 0\<rparr>
             \<lparr>msg_name := 0x3000, msg_namelen := sizeof_sockaddr_in, msg_iov := 0x2000, msg_iovlen := 1\<rparr>)"
    "shd (submit_events example_ring) = Accepted \<longrightarrow>
           sq ring' = [] \<and>
           submitted ring' = submitted example_ring @ sq example_ring @
             [\<lparr>opcode = IORING_OP_RECVMSG, sqe_flags = 0, ioprio = 0, fd = 3, off = 0,
               addr = 0x1000, len = 1, sqe_msg_flags = 0, user_data = 0x1000\<rparr>]"
    by blast
  with example_iovec example_msghdr example_separate(1) example_valid(3) show ?thesis
    by (intro conjI exI [of _ ring'] exI [of _ mem'])
       (simp_all add: sizeof_sockaddr_in_def example_ring_def)
qed

subsection \<open>What a submission writes\<close>









lemma mapped_place_sub:
  "length bs \<le> 2 ^ 64 \<Longrightarrow> k + n \<le> length bs \<Longrightarrow> mapped (place p bs mem) (field p k) n"
  using load_place_sub [of bs k n p mem] by (simp add: load_bytes_eq split: if_splits)





text \<open>A vector that lies inside the header is written like any other: the call on the
  example memory with \<open>iov = mhdr\<close> returns 0.\<close>

lemma vector_inside_header_returns:
  "submit_recvmsg_request LittleEndian 3 example_ring 0x1000 0x1000 0x3000 0x4000 64 example_memory =
     Inr (0, submitted_ring, wired LittleEndian example_memory 0x1000 0x1000 0x3000 0x4000 64)"
proof -
  have "mapped example_memory (field 0x1000 k) n" if "k + n \<le> 56" for k n
    unfolding example_memory_def using that by (intro mapped_place_sub) simp_all
  moreover have "(0x1000 :: ptr) \<noteq> NULL" by (simp add: NULL_def)
  ultimately have "iovec_at LittleEndian example_memory 0x1000 \<noteq> None"
    by (simp only: iovec_at_mapped simp_thms)
  from submit_recvmsg_request_ok [OF this example_valid(2,3)] show ?thesis
    by (simp add: example_ring_def submitted_ring_def recvmsg_sqe_def io_uring_submit_def)
qed

subsection \<open>The value of a submission\<close>

text \<open>C9, as amended: 0 is the only value \<^verbatim>\<open>submit_recvmsg_request\<close> returns, and it
  returns it whenever \<open>iov\<close> and \<open>mhdr\<close> point to a vector and a header and a slot is
  free, also when the kernel rejects the flush and takes nothing. With such pointers and
  no free slot the call does not return: it faults on the null slot.\<close>

theorem submit_recvmsg_request_returns_zero:
  "(\<forall>r ring' mem'. submit_recvmsg_request host sock ring mhdr iov sender buf buflen mem =
        Inr (r, ring', mem') \<longrightarrow> r = 0)
   \<and> (iovec_at host mem iov \<noteq> None \<and> msghdr_at host mem mhdr \<noteq> None \<and>
        length (sq ring) < sq_entries ring \<longrightarrow>
        (\<exists>ring' mem'. submit_recvmsg_request host sock ring mhdr iov sender buf buflen mem =
           Inr (0, ring', mem') \<and>
           (\<forall>e. shd (submit_events ring) = Rejected e \<longrightarrow> submitted ring' = submitted ring)))
   \<and> (iovec_at host mem iov \<noteq> None \<and> msghdr_at host mem mhdr \<noteq> None \<and>
        sq_entries ring \<le> length (sq ring) \<longrightarrow>
        submit_recvmsg_request host sock ring mhdr iov sender buf buflen mem = Inl NullDereference)"
proof (intro conjI allI impI)
  fix r ring' mem'
  assume "submit_recvmsg_request host sock ring mhdr iov sender buf buflen mem = Inr (r, ring', mem')"
  then show "r = 0" by (auto dest!: submit_recvmsg_request_Inr)
next
  assume "iovec_at host mem iov \<noteq> None \<and> msghdr_at host mem mhdr \<noteq> None \<and>
        length (sq ring) < sq_entries ring"
  then show "\<exists>ring' mem'. submit_recvmsg_request host sock ring mhdr iov sender buf buflen mem =
           Inr (0, ring', mem') \<and>
           (\<forall>e. shd (submit_events ring) = Rejected e \<longrightarrow> submitted ring' = submitted ring)"
    by (auto simp: submit_recvmsg_request_ok submit_rejected)
next
  assume "iovec_at host mem iov \<noteq> None \<and> msghdr_at host mem mhdr \<noteq> None \<and>
        sq_entries ring \<le> length (sq ring)"
  then show "submit_recvmsg_request host sock ring mhdr iov sender buf buflen mem = Inl NullDereference"
    by (auto simp: submit_recvmsg_request_no_slot)
qed

text \<open>On a ring whose kernel rejects the flush with \<^verbatim>\<open>-EAGAIN\<close> the call returns 0 and
  the kernel holds no submission.\<close>

theorem submit_recvmsg_request_returns_zero_witness:
  "iovec_at LittleEndian example_memory 0x2000 \<noteq> None
   \<and> msghdr_at LittleEndian example_memory 0x1000 \<noteq> None
   \<and> length (sq busy_ring) < sq_entries busy_ring
   \<and> shd (submit_events busy_ring) = Rejected eagain
   \<and> (\<exists>ring' mem'.
        submit_recvmsg_request LittleEndian 3 busy_ring 0x1000 0x2000 0x3000 0x4000 64
          example_memory = Inr (0, ring', mem') \<and> submitted ring' = [])"
proof -
  have v: "iovec_at LittleEndian example_memory 0x2000 \<noteq> None \<and>
      msghdr_at LittleEndian example_memory 0x1000 \<noteq> None
      \<and> length (sq busy_ring) < sq_entries busy_ring"
    using example_valid(1,2) by (simp add: busy_ring_def example_ring_def)
  have e: "shd (submit_events busy_ring) = Rejected eagain"
    by (simp add: busy_ring_def)
  from submit_recvmsg_request_returns_zero [where host = LittleEndian and sock = 3
      and ring = busy_ring and mhdr = "0x1000" and iov = "0x2000" and sender = "0x3000"
      and buf = "0x4000" and buflen = 64 and mem = example_memory,
      THEN conjunct2, THEN conjunct1, rule_format, OF v]
  obtain ring' mem' where
    "submit_recvmsg_request LittleEndian 3 busy_ring 0x1000 0x2000 0x3000 0x4000 64 example_memory =
       Inr (0, ring', mem')"
    "\<forall>e. shd (submit_events busy_ring) = Rejected e \<longrightarrow> submitted ring' = submitted busy_ring"
    by blast
  with e have "submit_recvmsg_request LittleEndian 3 busy_ring 0x1000 0x2000 0x3000 0x4000 64
      example_memory = Inr (0, ring', mem') \<and> submitted ring' = []"
    by (simp add: busy_ring_def example_ring_def)
  with v e show ?thesis by blast
qed

text \<open>C9 as stated fails: on the ring whose only slot is taken, with a valid vector and
  header, the call does not return 0. It faults on the null slot.\<close>

theorem submit_recvmsg_request_no_return_counterexample:
  "submit_recvmsg_request LittleEndian 3 jammed_ring 0x1000 0x2000 0x3000 0x4000 64 example_memory =
     Inl NullDereference"
  by (rule submit_recvmsg_request_no_slot [OF example_valid(1,2) jammed_full])

subsection \<open>No free submission slot\<close>

lemma submit_nop_request_no_slot:
  "sq_entries ring \<le> length (sq ring) \<Longrightarrow> submit_nop_request ring = Inl NullDereference"
  by (simp add: submit_nop_request_def get_sqe_full io_uring_prep_nop_def write_sqe_def seq_def)

text \<open>C4, as amended: when no submission slot is free, \<^verbatim>\<open>io_uring_get_sqe\<close> yields the null
  slot and neither submission operation reports it. Each hands the null slot to its
  populate step, which faults on it, so \<^verbatim>\<open>submit_nop_request\<close> faults, and so does
  \<^verbatim>\<open>submit_recvmsg_request\<close> once it has written the vector and the header.\<close>

theorem submit_without_slot_faults:
  assumes "sq_entries ring \<le> length (sq ring)"
  shows "io_uring_get_sqe ring = (None, ring)
     \<and> io_uring_prep_nop None ring = Inl NullDereference
     \<and> io_uring_prep_recvmsg None sock mhdr 0 ring = Inl NullDereference
     \<and> submit_nop_request ring = Inl NullDereference
     \<and> (iovec_at host mem iov \<noteq> None \<and> msghdr_at host mem mhdr \<noteq> None \<longrightarrow>
          submit_recvmsg_request host sock ring mhdr iov sender buf buflen mem = Inl NullDereference)"
  using assms
  by (auto simp: get_sqe_full submit_nop_request_no_slot submit_recvmsg_request_no_slot
      io_uring_prep_nop_def io_uring_prep_recvmsg_def write_sqe_def)

text \<open>Both submissions on the ring whose only slot is taken.\<close>

theorem submit_without_slot_faults_witness:
  "sq_entries jammed_ring \<le> length (sq jammed_ring)
   \<and> iovec_at LittleEndian example_memory 0x2000 \<noteq> None
   \<and> msghdr_at LittleEndian example_memory 0x1000 \<noteq> None
   \<and> submit_nop_request jammed_ring = Inl NullDereference
   \<and> submit_recvmsg_request LittleEndian 5 jammed_ring 0x1000 0x2000 0x3000 0x4000 1500
       example_memory = Inl NullDereference"
  using submit_without_slot_faults [OF jammed_full, where mem = example_memory
      and host = LittleEndian
      and iov = "0x2000" and mhdr = "0x1000" and sock = 5 and sender = "0x3000"
      and buf = "0x4000" and buflen = 1500]
    jammed_full example_valid(1,2)
  by simp

text \<open>C4 as stated fails: a no-op submitted on a ring of one slot whose kernel rejects
  the flush stays pending; the next submission gets the null slot, populates it all the
  same and faults, where the claim has it return an error.\<close>

theorem null_slot_populated_counterexample:
  "submit_nop_request busy_ring = Inr jammed_ring
   \<and> io_uring_get_sqe jammed_ring = (None, jammed_ring)
   \<and> submit_nop_request jammed_ring = Inl NullDereference"
  using nop_on_busy_ring jammed_full
  by (simp add: submit_nop_request_no_slot get_sqe_full)

subsection \<open>The correlation handle\<close>





subsection \<open>Byte order\<close>

lemma mask32_byte0: "(0xff :: 32 word) = mask 8"
  by (simp add: mask_eq_exp_minus_1)

lemma mask32_byte1: "(0xff00 :: 32 word) = push_bit 8 (mask 8)"
  by (simp add: mask_eq_exp_minus_1)

lemma mask32_byte2: "(0xff0000 :: 32 word) = push_bit 16 (mask 8)"
  by (simp add: mask_eq_exp_minus_1)

lemma mask32_byte3: "(0xff000000 :: 32 word) = push_bit 24 (mask 8)"
  by (simp add: mask_eq_exp_minus_1)

lemma mask16_byte0: "(0xff :: 16 word) = mask 8"
  by (simp add: mask_eq_exp_minus_1)

lemma mask16_byte1: "(0xff00 :: 16 word) = push_bit 8 (mask 8)"
  by (simp add: mask_eq_exp_minus_1)

lemma net32_byte3: "drop_bit 24 (net32 b3 b2 b1 b0 AND 0xff000000) = ucast b3"
  unfolding net32_def mask32_byte3
  by (rule bit_word_eqI) (auto simp: bit_simps dest: bit_imp_le_length)

lemma net32_byte2: "drop_bit 8 (net32 b3 b2 b1 b0 AND 0xff0000) = push_bit 8 (ucast b2)"
  unfolding net32_def mask32_byte2
  by (rule bit_word_eqI) (auto simp: bit_simps dest: bit_imp_le_length)

lemma net32_byte1: "push_bit 8 (net32 b3 b2 b1 b0 AND 0xff00) = push_bit 16 (ucast b1)"
  unfolding net32_def mask32_byte1
  by (rule bit_word_eqI) (auto simp: bit_simps dest: bit_imp_le_length)

lemma net32_byte0: "push_bit 24 (net32 b3 b2 b1 b0 AND 0xff) = push_bit 24 (ucast b0)"
  unfolding net32_def mask32_byte0
  by (rule bit_word_eqI) (auto simp: bit_simps dest: bit_imp_le_length)

lemma bswap_32_net32: "bswap_32 (net32 b3 b2 b1 b0) = net32 b0 b1 b2 b3"
  unfolding bswap_32_def net32_byte0 net32_byte1 net32_byte2 net32_byte3
  by (simp add: net32_def ac_simps)

lemma bswap_16_net16: "bswap_16 (net16 b1 b0) = net16 b0 b1"
  unfolding bswap_16_def net16_def mask16_byte0 mask16_byte1
  by (rule bit_word_eqI) (auto simp: bit_simps dest: bit_imp_le_length)

lemma ntohl_load32: "ntohl host (load32 host b0 b1 b2 b3) = net32 b0 b1 b2 b3"
  by (cases host) (simp_all add: ntohl_def load32_def bswap_32_net32)

lemma ntohs_load16: "ntohs host (load16 host b0 b1) = net16 b0 b1"
  by (cases host) (simp_all add: ntohs_def load16_def bswap_16_net16)

lemma decode_load32: "decode host [b0, b1, b2, b3] = load32 host b0 b1 b2 b3"
  by (cases host) (simp_all add: decode_def load32_def net32_def ac_simps)

lemma decode_load16: "decode host [b0, b1] = load16 host b0 b1"
  by (cases host) (simp_all add: decode_def load16_def net16_def ac_simps)

lemma decode_null:
  "ip host mem NULL = Inl NullDereference" "port host mem NULL = Inl NullDereference"
  by (simp_all add: ip_def port_def load_field_def segfault_def)

lemma ip_of_bytes:
  "sa \<noteq> NULL \<Longrightarrow> load_bytes mem (field sa 4) 4 = Some [b0, b1, b2, b3] \<Longrightarrow>
   ip host mem sa = Inr (net32 b0 b1 b2 b3)"
  by (simp add: ip_def load_field_def decode_load32 ntohl_load32)

lemma port_of_bytes:
  "sa \<noteq> NULL \<Longrightarrow> load_bytes mem (field sa 2) 2 = Some [p0, p1] \<Longrightarrow>
   port host mem sa = Inr (net16 p0 p1)"
  by (simp add: port_def load_field_def decode_load16 ntohs_load16)

text \<open>C8: \<^verbatim>\<open>ip\<close> and \<^verbatim>\<open>port\<close> on a populated sender-address slot. Whatever the byte
  order of the host, when the slot's fields are the host's loads of the address bytes
  \<open>b0 b1 b2 b3\<close> and of the port bytes \<open>p0 p1\<close> in network order, \<^verbatim>\<open>ip\<close> returns the 32-bit number
  and \<^verbatim>\<open>port\<close> the 16-bit number these bytes denote. Neither fails, and neither
  returns a memory: they have none to change.\<close>

theorem ip_port_decode:
  assumes "sockaddr_at host mem sa = Some a"
    and "s_addr a = load32 host b0 b1 b2 b3" and "sin_port a = load16 host p0 p1"
  shows "ip host mem sa = Inr (net32 b0 b1 b2 b3) \<and> port host mem sa = Inr (net16 p0 p1)"
  using sockaddr_at_SomeD [OF assms(1)] assms(2,3)
  by (simp add: ip_def port_def ntohl_load32 ntohs_load16)

text \<open>127.0.0.1 port 12345 on a little-endian host.\<close>

theorem ip_port_decode_witness:
  "sockaddr_at LittleEndian example_memory 0x3000 =
     Some \<lparr>sin_family = 2, sin_port = 0x3930, s_addr = 0x0100007f\<rparr>
   \<and> (0x0100007f :: 32 word) = load32 LittleEndian 127 0 0 1
   \<and> (0x3930 :: 16 word) = load16 LittleEndian 0x30 0x39
   \<and> ip LittleEndian example_memory 0x3000 = Inr 0x7f000001
   \<and> port LittleEndian example_memory 0x3000 = Inr 12345"
proof -
  have b: "(0x0100007f :: 32 word) = load32 LittleEndian 127 0 0 1"
    by (simp add: load32_def net32_def)
  have c: "(0x3930 :: 16 word) = load16 LittleEndian 0x30 0x39"
    by (simp add: load16_def net16_def)
  have d: "net32 127 0 0 1 = 0x7f000001" "net16 0x30 0x39 = 12345"
    by (simp_all add: net32_def net16_def)
  from ip_port_decode [OF example_sockaddr, where ?b0.0 = 127 and ?b1.0 = 0
      and ?b2.0 = 0 and ?b3.0 = 1 and ?p0.0 = "0x30" and ?p1.0 = "0x39"] example_sockaddr b c d
  show ?thesis by simp
qed

end
